theory Spec2Isabelle
  imports Main "HOL-Library.Word"
begin

section \<open>Wire messages and errors\<close>

text \<open>
  The transport layer of \<^verbatim>\<open>transportv1\<close>: the client (\<^verbatim>\<open>client.go\<close>) and the
  service (\<^verbatim>\<open>Service.ProxyCluster\<close>, \<^verbatim>\<open>Service.ProxySSH\<close>). A frame payload is a
  byte slice; an address is its string form.
\<close>

type_synonym payload = "8 word list"

type_synonym addr = string

text \<open>
  Errors as values. \<open>Remote\<close> stands for an error that comes from outside this package
  (the gRPC transport, the peer, the dialer); the other constructors are the ones the
  package builds itself with \<^verbatim>\<open>trace\<close> and \<^verbatim>\<open>trail\<close>.
\<close>

datatype error =
    EOF
  | Remote string
  | BadParameter string
  | AccessDenied string
  | Wrap error string
  | FromGRPC error string
  | ConnectionProblem error

text \<open>\<^verbatim>\<open>trace.Wrap\<close> and \<^verbatim>\<open>trail.FromGRPC\<close> of a possibly nil error: nil stays nil.\<close>

definition WrapNil :: "error option \<Rightarrow> string \<Rightarrow> error option" where
  "WrapNil e msg = (case e of None \<Rightarrow> None | Some err \<Rightarrow> Some (Wrap err msg))"

text \<open>The \<^verbatim>\<open>oneof\<close> frame of a host-session envelope; \<open>NoFrame\<close> is the unset oneof.\<close>

datatype ssh_frame = Ssh payload | Agent payload | NoFrame

record TargetHost =
  HostPort :: string
  Cluster :: string

record ClusterDetails =
  FipsEnabled :: bool

record ProxySSHRequest =
  DialTarget :: "TargetHost option"
  req_Frame :: ssh_frame

record ProxySSHResponse =
  Details :: "ClusterDetails option"
  resp_Frame :: ssh_frame


record ProxyClusterResponse =
  cresp_Frame :: "payload option"

section \<open>Channels and blocking\<close>

text \<open>
  The outcome of an operation that may block or panic. \<open>Blocked\<close>: no case of the
  operation can proceed in this state, the goroutine waits. \<open>Panic\<close>: a runtime panic.
\<close>

datatype 'a run = Ok 'a | Blocked | Panic

text \<open>
  A buffered channel is the list of its queued values, oldest first. A send appends when
  there is room and blocks otherwise; \<^verbatim>\<open>close\<close> of a channel that is already closed
  panics.
\<close>

definition chan_send :: "nat \<Rightarrow> 'a list \<Rightarrow> 'a \<Rightarrow> 'a list run" where
  "chan_send cap q x = (if length q < cap then Ok (q @ [x]) else Blocked)"

definition chan_close :: "bool \<Rightarrow> bool run" where
  "chan_close closed = (if closed then Panic else Ok True)"

text \<open>
  A \<^verbatim>\<open>select\<close> with two receive cases takes the one that can proceed; when both can,
  the runtime chooses one of them pseudo-randomly. The choice is a parameter of the model:
  \<open>PickFirst\<close> and \<open>PickSecond\<close> name the cases in the order of the source.
\<close>

datatype pick = PickFirst | PickSecond

section \<open>The service's virtual stream\<close>

text \<open>
  \<^verbatim>\<open>sshStream\<close> of the service: \<^verbatim>\<open>incomingC\<close> (capacity 10), the \<^verbatim>\<open>done\<close> channel
  (here: whether it has been closed) and the function that tags an outgoing payload.
\<close>

record sshStream =
  incomingC :: "payload list"
  done_closed :: bool
  responseFn :: "payload \<Rightarrow> ProxySSHResponse"

definition newSSHStream :: "(payload \<Rightarrow> ProxySSHResponse) \<Rightarrow> sshStream" where
  "newSSHStream fn = \<lparr>incomingC = [], done_closed = False, responseFn = fn\<rparr>"

definition agentResponse :: "payload \<Rightarrow> ProxySSHResponse" where
  "agentResponse p = \<lparr>Details = None, resp_Frame = Agent p\<rparr>"

definition sshResponse :: "payload \<Rightarrow> ProxySSHResponse" where
  "sshResponse p = \<lparr>Details = None, resp_Frame = Ssh p\<rparr>"

text \<open>
  \<^verbatim>\<open>Close\<close>: the \<^verbatim>\<open>select\<close> takes \<^verbatim>\<open><-s.done\<close> when the channel is closed and the
  \<^verbatim>\<open>default\<close> case, which closes it, otherwise. The result is always nil.
\<close>

definition sshStream_Close :: "sshStream \<Rightarrow> (error option \<times> sshStream) run" where
  "sshStream_Close s =
     (if done_closed s then Ok (None, s)
      else (case chan_close (done_closed s) of
              Ok c \<Rightarrow> Ok (None, s\<lparr>done_closed := c\<rparr>)
            | Blocked \<Rightarrow> Blocked
            | Panic \<Rightarrow> Panic))"

text \<open>
  \<^verbatim>\<open>Recv\<close>: \<^verbatim>\<open><-s.done\<close> can proceed once \<^verbatim>\<open>done\<close> is closed and yields
  \<^verbatim>\<open>io.EOF\<close>; \<^verbatim>\<open><-s.incomingC\<close> can proceed when a frame is queued and takes the
  oldest one.
\<close>

definition sshStream_Recv :: "pick \<Rightarrow> sshStream \<Rightarrow> ((error + payload) \<times> sshStream) run" where
  "sshStream_Recv pk s =
     (case incomingC s of
        [] \<Rightarrow> (if done_closed s then Ok (Inl EOF, s) else Blocked)
      | f # fs \<Rightarrow>
          (if done_closed s \<and> pk = PickFirst then Ok (Inl EOF, s)
           else Ok (Inr f, s\<lparr>incomingC := fs\<rparr>)))"

text \<open>What \<^verbatim>\<open>Send\<close> hands to the parent stream.\<close>

definition sshStream_Send :: "sshStream \<Rightarrow> payload \<Rightarrow> ProxySSHResponse" where
  "sshStream_Send s frame = responseFn s frame"

text \<open>A sequence of \<^verbatim>\<open>Close\<close> calls on one stream: the results, and the stream after the last.\<close>

fun close_times :: "nat \<Rightarrow> sshStream \<Rightarrow> (error option list \<times> sshStream) run" where
  "close_times 0 s = Ok ([], s)"
| "close_times (Suc n) s =
     (case sshStream_Close s of
        Ok (r, s') \<Rightarrow>
          (case close_times n s' of
             Ok (rs, s'') \<Rightarrow> Ok (r # rs, s'')
           | Blocked \<Rightarrow> Blocked
           | Panic \<Rightarrow> Panic)
      | Blocked \<Rightarrow> Blocked
      | Panic \<Rightarrow> Panic)"

text \<open>A sequence of \<^verbatim>\<open>Recv\<close> calls by the one consumer, up to the first that blocks.\<close>

fun recv_all :: "pick list \<Rightarrow> sshStream \<Rightarrow> (error + payload) list \<times> sshStream" where
  "recv_all [] s = ([], s)"
| "recv_all (pk # pks) s =
     (case sshStream_Recv pk s of
        Ok (r, s') \<Rightarrow> (case recv_all pks s' of (rs, s'') \<Rightarrow> (r # rs, s''))
      | Blocked \<Rightarrow> ([], s)
      | Panic \<Rightarrow> ([], s))"

text \<open>Sequencing of operations that may block or panic.\<close>

definition then_run :: "'a run \<Rightarrow> ('a \<Rightarrow> 'b run) \<Rightarrow> 'b run" where
  "then_run r f = (case r of Ok x \<Rightarrow> f x | Blocked \<Rightarrow> Blocked | Panic \<Rightarrow> Panic)"

text \<open>
  One virtual stream of the service with its producer (the multiplexer, which sends on
  \<^verbatim>\<open>incomingC\<close>), its consumer (\<^verbatim>\<open>Recv\<close>) and \<^verbatim>\<open>Close\<close>, interleaved in any order.
  The second component collects what the \<^verbatim>\<open>Recv\<close> calls returned. A schedule that
  contains an operation that cannot proceed when its turn comes is not an execution.
\<close>

datatype vs_action = Enqueue payload | Receive pick | CloseStream

fun vs_step :: "vs_action \<Rightarrow> sshStream \<times> (error + payload) list \<Rightarrow>
    (sshStream \<times> (error + payload) list) run" where
  "vs_step (Enqueue p) (s, out) =
     then_run (chan_send 10 (incomingC s) p) (\<lambda>q. Ok (s\<lparr>incomingC := q\<rparr>, out))"
| "vs_step (Receive pk) (s, out) =
     then_run (sshStream_Recv pk s) (\<lambda>(r, s'). Ok (s', out @ [r]))"
| "vs_step CloseStream (s, out) =
     then_run (sshStream_Close s) (\<lambda>(r, s'). Ok (s', out))"

fun vs_run :: "vs_action list \<Rightarrow> sshStream \<times> (error + payload) list \<Rightarrow>
    (sshStream \<times> (error + payload) list) run" where
  "vs_run [] st = Ok st"
| "vs_run (a # as) st = then_run (vs_step a st) (vs_run as)"

text \<open>The frames among the results of a consumer, and the frames a schedule enqueues.\<close>

fun frames_of :: "(error + payload) list \<Rightarrow> payload list" where
  "frames_of [] = []"
| "frames_of (Inl e # rs) = frames_of rs"
| "frames_of (Inr p # rs) = p # frames_of rs"


section \<open>The client's virtual stream\<close>

text \<open>
  \<^verbatim>\<open>sshStream\<close> of the client: \<^verbatim>\<open>incomingC\<close> (capacity 10), \<^verbatim>\<open>errorC\<close>
  (capacity 1) and the function that tags an outgoing payload.
\<close>

record clientStream =
  c_incomingC :: "payload list"
  errorC :: "error list"
  requestFn :: "payload \<Rightarrow> ProxySSHRequest"

definition newClientStream :: "(payload \<Rightarrow> ProxySSHRequest) \<Rightarrow> clientStream" where
  "newClientStream fn = \<lparr>c_incomingC = [], errorC = [], requestFn = fn\<rparr>"

definition agentRequest :: "payload \<Rightarrow> ProxySSHRequest" where
  "agentRequest p = \<lparr>DialTarget = None, req_Frame = Agent p\<rparr>"

definition sshRequest :: "payload \<Rightarrow> ProxySSHRequest" where
  "sshRequest p = \<lparr>DialTarget = None, req_Frame = Ssh p\<rparr>"

text \<open>
  \<^verbatim>\<open>Recv\<close>: the first case takes an error from \<^verbatim>\<open>errorC\<close> and returns it wrapped,
  the second takes the oldest frame of \<^verbatim>\<open>incomingC\<close>.
\<close>

definition clientStream_Recv :: "pick \<Rightarrow> clientStream \<Rightarrow> ((error + payload) \<times> clientStream) run" where
  "clientStream_Recv pk s =
     (case errorC s of
        [] \<Rightarrow>
          (case c_incomingC s of
             [] \<Rightarrow> Blocked
           | f # fs \<Rightarrow> Ok (Inr f, s\<lparr>c_incomingC := fs\<rparr>))
      | e # es \<Rightarrow>
          (case c_incomingC s of
             [] \<Rightarrow> Ok (Inl (Wrap e []), s\<lparr>errorC := es\<rparr>)
           | f # fs \<Rightarrow>
               (if pk = PickFirst then Ok (Inl (Wrap e []), s\<lparr>errorC := es\<rparr>)
                else Ok (Inr f, s\<lparr>c_incomingC := fs\<rparr>))))"

definition clientStream_Send :: "clientStream \<Rightarrow> payload \<Rightarrow> ProxySSHRequest" where
  "clientStream_Send s frame = requestFn s frame"





text \<open>A sequence of \<^verbatim>\<open>Recv\<close> calls by the one consumer, up to the first that blocks.\<close>

fun c_recv_all :: "pick list \<Rightarrow> clientStream \<Rightarrow> (error + payload) list \<times> clientStream" where
  "c_recv_all [] s = ([], s)"
| "c_recv_all (pk # pks) s =
     (case clientStream_Recv pk s of
        Ok (r, s') \<Rightarrow> (case c_recv_all pks s' of (rs, s'') \<Rightarrow> (r # rs, s''))
      | Blocked \<Rightarrow> ([], s)
      | Panic \<Rightarrow> ([], s))"

section \<open>The multiplexer of the service\<close>

text \<open>
  The goroutine that \<^verbatim>\<open>Service.ProxySSH\<close> starts. Between receiving an envelope and
  completing the channel send the goroutine holds the payload (\<open>sm_pending\<close>): the send
  blocks while the queue is full, and the payload is neither queued nor dropped meanwhile.
\<close>

datatype pending = ToSsh payload | ToAgent payload

record server_mux =
  sm_agentStream :: sshStream
  sm_sshStream :: sshStream
  sm_log :: "string list"
  sm_pending :: "pending option"
  sm_running :: bool

definition server_mux_init :: server_mux where
  "server_mux_init =
     \<lparr>sm_agentStream = newSSHStream agentResponse, sm_sshStream = newSSHStream sshResponse,
      sm_log = [], sm_pending = None, sm_running = True\<rparr>"

text \<open>
  \<^verbatim>\<open>stream.Recv()\<close> has returned \<open>r\<close>: the error branch closes both streams, logs
  unless \<^verbatim>\<open>utils.IsOKNetworkError\<close> (a parameter) holds, and returns; otherwise the
  switch on the frame's type. The step cannot be taken by a goroutine that has returned
  or that is still at its channel send.
\<close>

definition server_mux_recv :: "(error \<Rightarrow> bool) \<Rightarrow> error + ProxySSHRequest \<Rightarrow> server_mux \<Rightarrow> server_mux run" where
  "server_mux_recv IsOKNetworkError r m =
     (if \<not> sm_running m \<or> sm_pending m \<noteq> None then Blocked
      else (case r of
        Inl err \<Rightarrow>
          then_run (sshStream_Close (sm_agentStream m)) (\<lambda>(r1, a).
          then_run (sshStream_Close (sm_sshStream m)) (\<lambda>(r2, s).
            Ok (m\<lparr>sm_agentStream := a, sm_sshStream := s,
                  sm_log := (if IsOKNetworkError err then sm_log m
                             else sm_log m @ [''ssh stream terminated unexpectedly'']),
                  sm_running := False\<rparr>)))
      | Inr req \<Rightarrow>
          (case req_Frame req of
             Ssh p \<Rightarrow> Ok (m\<lparr>sm_pending := Some (ToSsh p)\<rparr>)
           | Agent p \<Rightarrow> Ok (m\<lparr>sm_pending := Some (ToAgent p)\<rparr>)
           | NoFrame \<Rightarrow> Ok (m\<lparr>sm_log := sm_log m @ [''received unexpected ssh frame'']\<rparr>))))"

text \<open>The channel send of the switch: \<^verbatim>\<open>sshStream.incomingC <- ...\<close> or \<^verbatim>\<open>agentStream.incomingC <- ...\<close>.\<close>

definition server_mux_send :: "server_mux \<Rightarrow> server_mux run" where
  "server_mux_send m =
     (case sm_pending m of
        None \<Rightarrow> Blocked
      | Some (ToSsh p) \<Rightarrow>
          then_run (chan_send 10 (incomingC (sm_sshStream m)) p) (\<lambda>q.
            Ok (m\<lparr>sm_sshStream := (sm_sshStream m)\<lparr>incomingC := q\<rparr>, sm_pending := None\<rparr>))
      | Some (ToAgent p) \<Rightarrow>
          then_run (chan_send 10 (incomingC (sm_agentStream m)) p) (\<lambda>q.
            Ok (m\<lparr>sm_agentStream := (sm_agentStream m)\<lparr>incomingC := q\<rparr>, sm_pending := None\<rparr>)))"

text \<open>One iteration of the loop, from the receive to the end of the switch.\<close>

definition server_mux_iter :: "(error \<Rightarrow> bool) \<Rightarrow> error + ProxySSHRequest \<Rightarrow> server_mux \<Rightarrow> server_mux run" where
  "server_mux_iter IsOKNetworkError r m =
     then_run (server_mux_recv IsOKNetworkError r m) (\<lambda>m'.
       if sm_pending m' = None then Ok m' else server_mux_send m')"

section \<open>Connections over a stream\<close>

text \<open>
  Modelled from the spec: the stream-backed connection of package
  \<^verbatim>\<open>api/utils/grpc/stream\<close>, whose source is not available: ``underlying read source,
  underlying write sink, local address, remote address''. The local address is the
  \<^verbatim>\<open>src\<close> of the callers, which may be nil.
\<close>

record 'rw Conn =
  conn_rw :: 'rw
  LocalAddr :: "addr option"
  RemoteAddr :: addr

text \<open>
  Modelled from the spec: \<^verbatim>\<open>streamutils.NewConn(rw, src, dst)\<close>, the reader/writer with
  the two addresses.
\<close>

definition NewConn :: "'rw \<Rightarrow> addr option \<Rightarrow> addr \<Rightarrow> 'rw Conn" where
  "NewConn rw src dst = \<lparr>conn_rw = rw, LocalAddr = src, RemoteAddr = dst\<rparr>"

text \<open>
  In a host session the reader/writers share the virtual streams with the multiplexer, so
  a connection holds the name of its stream, not a copy of it.
\<close>

datatype rw_ref = AgentRW | SshRW

section \<open>The multiplexer of the client\<close>

text \<open>
  The goroutine that \<^verbatim>\<open>Client.DialHost\<close> starts. \<open>serveOnce\<close> is the state of the
  \<^verbatim>\<open>sync.Once\<close>, \<open>serving\<close> counts the \<^verbatim>\<open>agent.ServeAgent\<close> goroutines started, and
  the two flags record the deferred \<^verbatim>\<open>agentRW.Close()\<close> and \<^verbatim>\<open>sshConn.Close()\<close>.
\<close>

type_synonym keyring = string

record client_mux =
  cm_sshStream :: clientStream
  cm_agentStream :: clientStream
  serveOnce :: bool
  serving :: nat
  agentRW_closed :: bool
  sshConn_closed :: bool
  cm_pending :: "pending option"
  cm_running :: bool

definition client_mux_init :: client_mux where
  "client_mux_init =
     \<lparr>cm_sshStream = newClientStream sshRequest, cm_agentStream = newClientStream agentRequest,
      serveOnce = False, serving = 0, agentRW_closed = False, sshConn_closed = False,
      cm_pending = None, cm_running = True\<rparr>"

text \<open>
  \<^verbatim>\<open>stream.Recv()\<close> has returned \<open>r\<close>. On an error: \<^verbatim>\<open>sshStream.errorC <- err\<close>, return,
  and the deferred closes. On an agent frame without a keyring: \<^verbatim>\<open>continue\<close>; with one:
  \<^verbatim>\<open>serveOnce.Do\<close>, then the channel send.
\<close>

definition client_mux_recv :: "keyring option \<Rightarrow> error + ProxySSHResponse \<Rightarrow> client_mux \<Rightarrow> client_mux run" where
  "client_mux_recv kr r m =
     (if \<not> cm_running m \<or> cm_pending m \<noteq> None then Blocked
      else (case r of
        Inl err \<Rightarrow>
          then_run (chan_send 1 (errorC (cm_sshStream m)) err) (\<lambda>q.
            Ok (m\<lparr>cm_sshStream := (cm_sshStream m)\<lparr>errorC := q\<rparr>,
                  agentRW_closed := True, sshConn_closed := True, cm_running := False\<rparr>))
      | Inr resp \<Rightarrow>
          (case resp_Frame resp of
             Ssh p \<Rightarrow> Ok (m\<lparr>cm_pending := Some (ToSsh p)\<rparr>)
           | Agent p \<Rightarrow>
               (if kr = None then Ok m
                else if serveOnce m then Ok (m\<lparr>cm_pending := Some (ToAgent p)\<rparr>)
                else Ok (m\<lparr>serveOnce := True, serving := Suc (serving m),
                           cm_pending := Some (ToAgent p)\<rparr>))
           | NoFrame \<Rightarrow> Ok m)))"

definition client_mux_send :: "client_mux \<Rightarrow> client_mux run" where
  "client_mux_send m =
     (case cm_pending m of
        None \<Rightarrow> Blocked
      | Some (ToSsh p) \<Rightarrow>
          then_run (chan_send 10 (c_incomingC (cm_sshStream m)) p) (\<lambda>q.
            Ok (m\<lparr>cm_sshStream := (cm_sshStream m)\<lparr>c_incomingC := q\<rparr>, cm_pending := None\<rparr>))
      | Some (ToAgent p) \<Rightarrow>
          then_run (chan_send 10 (c_incomingC (cm_agentStream m)) p) (\<lambda>q.
            Ok (m\<lparr>cm_agentStream := (cm_agentStream m)\<lparr>c_incomingC := q\<rparr>, cm_pending := None\<rparr>)))"

definition client_mux_iter :: "keyring option \<Rightarrow> error + ProxySSHResponse \<Rightarrow> client_mux \<Rightarrow> client_mux run" where
  "client_mux_iter kr r m =
     then_run (client_mux_recv kr r m) (\<lambda>m'.
       if cm_pending m' = None then Ok m' else client_mux_send m')"

text \<open>
  The client's side of a host session after \<^verbatim>\<open>DialHost\<close> has returned: the multiplexer,
  what the parent stream will still deliver (the results of the coming \<^verbatim>\<open>stream.Recv()\<close>
  calls, in order) and the keyring the caller passed.
\<close>

record client_session =
  cs_mux :: client_mux
  cs_inbox :: "(error + ProxySSHResponse) list"
  cs_keyring :: "keyring option"

text \<open>
  The concurrent steps of a session: the multiplexer receives from the parent stream or
  completes its channel send, the user reads the connection, a started agent responder
  reads the agent stream.
\<close>

datatype client_action = MuxRecv | MuxSend | ConnRecv pick | AgentRecv pick

fun client_step :: "client_action \<Rightarrow> client_session \<Rightarrow> client_session run" where
  "client_step MuxRecv s =
     (case cs_inbox s of
        [] \<Rightarrow> Blocked
      | r # rs \<Rightarrow>
          then_run (client_mux_recv (cs_keyring s) r (cs_mux s)) (\<lambda>m.
            Ok (s\<lparr>cs_mux := m, cs_inbox := rs\<rparr>)))"
| "client_step MuxSend s =
     then_run (client_mux_send (cs_mux s)) (\<lambda>m. Ok (s\<lparr>cs_mux := m\<rparr>))"
| "client_step (ConnRecv pk) s =
     then_run (clientStream_Recv pk (cm_sshStream (cs_mux s))) (\<lambda>(r, st).
       Ok (s\<lparr>cs_mux := (cs_mux s)\<lparr>cm_sshStream := st\<rparr>\<rparr>))"
| "client_step (AgentRecv pk) s =
     (if serving (cs_mux s) = 0 then Blocked
      else then_run (clientStream_Recv pk (cm_agentStream (cs_mux s))) (\<lambda>(r, st).
             Ok (s\<lparr>cs_mux := (cs_mux s)\<lparr>cm_agentStream := st\<rparr>\<rparr>)))"

text \<open>A schedule; a step that cannot proceed when its turn comes does not happen.\<close>

fun client_run :: "client_action list \<Rightarrow> client_session \<Rightarrow> client_session" where
  "client_run [] s = s"
| "client_run (a # as) s =
     (case client_step a s of
        Ok s' \<Rightarrow> client_run as s'
      | Blocked \<Rightarrow> client_run as s
      | Panic \<Rightarrow> client_run as s)"

text \<open>Whether an agent-tagged envelope is among the results of the parent stream.\<close>

fun has_agent_frame :: "(error + ProxySSHResponse) list \<Rightarrow> bool" where
  "has_agent_frame [] = False"
| "has_agent_frame (Inl e # rs) = has_agent_frame rs"
| "has_agent_frame (Inr resp # rs) =
     (case resp_Frame resp of
        Agent p \<Rightarrow> True
      | Ssh p \<Rightarrow> has_agent_frame rs
      | NoFrame \<Rightarrow> has_agent_frame rs)"

section \<open>Client.DialHost\<close>




section \<open>The service\<close>

text \<open>
  \<^verbatim>\<open>ServerConfig\<close> and \<^verbatim>\<open>CheckAndSetDefaults\<close>. Of the dialer the configuration
  records whether it is set; what it returns belongs to the environment of a call. The
  default \<^verbatim>\<open>accessCheckerFn\<close> accepts only an \<^verbatim>\<open>auth.IdentityInfo\<close>. The logger
  and \<^verbatim>\<open>agentGetterFn\<close>, which get defaults as well, are not fields here: what is
  logged is a list in the multiplexer's state, and whatever getter the dialer is handed
  writes through the agent stream.
\<close>

datatype AccessChecker = Checker string

datatype AuthInfo = IdentityInfo AccessChecker | OtherAuthInfo

record ServerConfig =
  FIPS :: bool
  Dialer_set :: bool
  accessCheckerFn :: "(AuthInfo \<Rightarrow> error + AccessChecker) option"

definition defaultAccessCheckerFn :: "AuthInfo \<Rightarrow> error + AccessChecker" where
  "defaultAccessCheckerFn info =
     (case info of
        IdentityInfo checker \<Rightarrow> Inr checker
      | OtherAuthInfo \<Rightarrow> Inl (AccessDenied ''client is not authenticated''))"

definition CheckAndSetDefaults :: "ServerConfig \<Rightarrow> error + ServerConfig" where
  "CheckAndSetDefaults c =
     (if \<not> Dialer_set c then Inl (BadParameter ''parameter Dialer required'')
      else Inr (case accessCheckerFn c of
                  None \<Rightarrow> c\<lparr>accessCheckerFn := Some defaultAccessCheckerFn\<rparr>
                | Some f \<Rightarrow> c))"

definition NewService :: "ServerConfig \<Rightarrow> error + ServerConfig" where
  "NewService cfg =
     (case CheckAndSetDefaults cfg of
        Inl err \<Rightarrow> Inl (Wrap err [])
      | Inr c \<Rightarrow> Inr c)"

text \<open>
  The environment of one \<^verbatim>\<open>ProxySSH\<close> call: the peer of the stream's context, the result
  of the first \<^verbatim>\<open>stream.Recv()\<close>, of the \<^verbatim>\<open>NewReadWriter\<close> calls, of the dialer, of
  sending the details and of \<^verbatim>\<open>utils.ProxyConn\<close>. The dialer is handed the agent getter
  over the agent stream's reader/writer; \<open>dial_writes\<close> are the payloads it writes through
  it before it returns.
\<close>

record peer =
  peer_Addr :: addr
  peer_AuthInfo :: AuthInfo

record server_env =
  env_peer :: "peer option"
  first_recv :: "error + ProxySSHRequest"
  new_agent_rw :: "error option"
  dial_writes :: "payload list"
  dial_result :: "error + string"
  new_ssh_rw :: "error option"
  send_details :: "error option"
  proxy_conn :: "error option"

text \<open>What a call does that its environment can observe, in order.\<close>

datatype event =
    EvAccessCheck AuthInfo
  | EvRecv
  | EvGoMux
  | EvDialHost addr string string string AccessChecker
  | EvSend ProxySSHResponse
  | EvProxyConn string
  | EvCloseAgentRW

text \<open>
  \<^verbatim>\<open>Service.ProxySSH\<close>. \<^verbatim>\<open>net.SplitHostPort\<close> is a parameter. A nil
  \<^verbatim>\<open>accessCheckerFn\<close> cannot occur in a service built by \<^verbatim>\<open>NewService\<close>; calling it
  would panic.
\<close>

definition ProxySSH :: "ServerConfig \<Rightarrow> (string \<Rightarrow> error + string \<times> string) \<Rightarrow> server_env \<Rightarrow>
    (event list \<times> error option) run" where
  "ProxySSH cfg SplitHostPort env =
     (case env_peer env of
        None \<Rightarrow> Ok ([], Some (BadParameter ''unable to find peer''))
      | Some p \<Rightarrow>
     (case accessCheckerFn cfg of
        None \<Rightarrow> Panic
      | Some checkerFn \<Rightarrow>
     (case checkerFn (peer_AuthInfo p) of
        Inl err \<Rightarrow> Ok ([EvAccessCheck (peer_AuthInfo p)], Some (Wrap err []))
      | Inr checker \<Rightarrow>
     (case first_recv env of
        Inl err \<Rightarrow>
          Ok ([EvAccessCheck (peer_AuthInfo p), EvRecv],
              Some (Wrap err ''failed receiving first frame''))
      | Inr req \<Rightarrow>
     (case DialTarget req of
        None \<Rightarrow>
          Ok ([EvAccessCheck (peer_AuthInfo p), EvRecv],
              Some (BadParameter ''first frame must contain a dial target''))
      | Some target \<Rightarrow>
     (case SplitHostPort (HostPort target) of
        Inl err \<Rightarrow>
          Ok ([EvAccessCheck (peer_AuthInfo p), EvRecv],
              Some (BadParameter ''dial target contains an invalid hostport''))
      | Inr (host, port) \<Rightarrow>
     (let agentStream = newSSHStream agentResponse;
          started = [EvAccessCheck (peer_AuthInfo p), EvRecv, EvGoMux]
      in
     (case new_agent_rw env of
        Some err \<Rightarrow> Ok (started, Some (Wrap err ''failed constructing ssh agent streamer''))
      | None \<Rightarrow>
     (let dialed = started
            @ [EvDialHost (peer_Addr p) host port (Cluster target) checker]
            @ map (\<lambda>f. EvSend (sshStream_Send agentStream f)) (dial_writes env)
      in
     (case dial_result env of
        Inl err \<Rightarrow> Ok (dialed @ [EvCloseAgentRW], Some (Wrap err ''failed to dial target host''))
      | Inr conn \<Rightarrow>
     (case new_ssh_rw env of
        Some err \<Rightarrow> Ok (dialed @ [EvCloseAgentRW], Some (Wrap err ''failed constructing ssh streamer''))
      | None \<Rightarrow>
     (case send_details env of
        Some err \<Rightarrow> Ok (dialed @ [EvCloseAgentRW], Some (Wrap err ''failed sending cluster details ''))
      | None \<Rightarrow>
          Ok (dialed
                @ [EvSend \<lparr>Details = Some \<lparr>FipsEnabled = FIPS cfg\<rparr>, resp_Frame = NoFrame\<rparr>,
                   EvProxyConn conn, EvCloseAgentRW],
              WrapNil (proxy_conn env) [])))))))))))))"

text \<open>The envelopes a call has put on the stream, and whether one of them carries details.\<close>

fun sent_of :: "event list \<Rightarrow> ProxySSHResponse list" where
  "sent_of [] = []"
| "sent_of (EvSend r # evs) = r # sent_of evs"
| "sent_of (e # evs) = sent_of evs"


fun dial_calls :: "event list \<Rightarrow> nat" where
  "dial_calls [] = 0"
| "dial_calls (EvDialHost a h p c k # evs) = Suc (dial_calls evs)"
| "dial_calls (e # evs) = dial_calls evs"




text \<open>Whether the peer's authentication context yields an access checker.\<close>

definition authorized :: "ServerConfig \<Rightarrow> server_env \<Rightarrow> bool" where
  "authorized cfg env =
     (case env_peer env of
        None \<Rightarrow> False
      | Some p \<Rightarrow>
          (case accessCheckerFn cfg of
             None \<Rightarrow> False
           | Some checkerFn \<Rightarrow> \<not> isl (checkerFn (peer_AuthInfo p))))"

section \<open>Cluster sessions\<close>

text \<open>
  \<^verbatim>\<open>clusterStream.Recv\<close> of the client and of the service, on what the parent stream
  delivers: one \<^verbatim>\<open>stream.Recv()\<close>, then the check of the frame.
\<close>

definition client_clusterStream_Recv ::
    "(error + ProxyClusterResponse) list \<Rightarrow> ((error + payload) \<times> (error + ProxyClusterResponse) list) run" where
  "client_clusterStream_Recv inbox =
     (case inbox of
        [] \<Rightarrow> Blocked
      | Inl err # rest \<Rightarrow> Ok (Inl (Wrap err []), rest)
      | Inr resp # rest \<Rightarrow>
          (case cresp_Frame resp of
             None \<Rightarrow> Ok (Inl (BadParameter ''received invalid frame''), rest)
           | Some p \<Rightarrow> Ok (Inr p, rest)))"




section \<open>Client.DialCluster\<close>

text \<open>
  The results of the calls that leave the package: opening the stream, sending the cluster
  name, \<^verbatim>\<open>streamutils.NewReadWriter\<close>, and \<^verbatim>\<open>peer.FromContext\<close> on the stream's context.
\<close>

record cluster_env =
  cl_open_stream :: "error option"
  cl_send_cluster :: "error option"
  cl_new_rw :: "error option"
  cl_peer :: "addr option"

text \<open>
  Modelled from the spec: the reader/writer of package \<^verbatim>\<open>api/utils/grpc/stream\<close>, whose
  source is not available. It holds its source and the remainder of the last frame:
  ``Read buffers sub-frame remainders across calls (a caller's read size need not match a
  frame's payload size)''.
\<close>

record 'src ReadWriter =
  rw_source :: 'src
  rBytes :: payload

text \<open>
  Modelled from the spec: the reader/writer that \<^verbatim>\<open>NewReadWriter\<close> returns when it
  returns no error, with nothing buffered.
\<close>

definition NewReadWriter :: "'src \<Rightarrow> 'src ReadWriter" where
  "NewReadWriter src = \<lparr>rw_source = src, rBytes = []\<rparr>"

text \<open>
  Modelled from the spec: whether an error is the end-of-stream indication. The tests of
  the client expect \<^verbatim>\<open>io.EOF\<close> from a read after the error went through
  \<^verbatim>\<open>trace.Wrap\<close>, so wrapping does not hide it.
\<close>

fun is_EOF :: "error \<Rightarrow> bool" where
  "is_EOF EOF = True"
| "is_EOF (Wrap e msg) = is_EOF e"
| "is_EOF (FromGRPC e msg) = is_EOF e"
| "is_EOF (Remote msg) = False"
| "is_EOF (BadParameter msg) = False"
| "is_EOF (AccessDenied msg) = False"
| "is_EOF (ConnectionProblem e) = False"

text \<open>
  Modelled from the spec: \<^verbatim>\<open>Read\<close> into a buffer of \<open>n\<close> bytes. Buffered bytes are
  served first; otherwise one \<^verbatim>\<open>Recv\<close> of the source, whose error is ``propagated to
  the connection-facing caller as an end-of-stream or connection-problem indication'':
  ``a connection-problem error (not the peer's raw error type, but a classified connection
  failure)''. The result is the number of bytes, the bytes, and the error.
\<close>

definition ReadWriter_Read :: "('src \<Rightarrow> ((error + payload) \<times> 'src) run) \<Rightarrow> nat \<Rightarrow> 'src ReadWriter \<Rightarrow>
    ((nat \<times> payload \<times> error option) \<times> 'src ReadWriter) run" where
  "ReadWriter_Read recv n rw =
     (if rBytes rw \<noteq> [] then
        Ok ((min n (length (rBytes rw)), take n (rBytes rw), None), rw\<lparr>rBytes := drop n (rBytes rw)\<rparr>)
      else
        then_run (recv (rw_source rw)) (\<lambda>(r, src).
          (case r of
             Inl err \<Rightarrow>
               Ok ((0, [], Some (if is_EOF err then EOF else ConnectionProblem err)),
                   rw\<lparr>rw_source := src\<rparr>)
           | Inr data \<Rightarrow>
               Ok ((min n (length data), take n data, None),
                   rw\<lparr>rw_source := src, rBytes := drop n data\<rparr>))))"

text \<open>
  Modelled from the spec: \<^verbatim>\<open>Read\<close> of the connection that \<^verbatim>\<open>NewConn\<close> builds, which
  reads its reader/writer.
\<close>

definition Conn_Read :: "('src \<Rightarrow> ((error + payload) \<times> 'src) run) \<Rightarrow> nat \<Rightarrow> 'src ReadWriter Conn \<Rightarrow>
    ((nat \<times> payload \<times> error option) \<times> 'src ReadWriter Conn) run" where
  "Conn_Read recv n c =
     then_run (ReadWriter_Read recv n (conn_rw c)) (\<lambda>(res, rw). Ok (res, c\<lparr>conn_rw := rw\<rparr>))"

text \<open>
  \<^verbatim>\<open>Client.DialCluster\<close>. The second argument is what the parent stream delivers; the
  connection reads it through \<^verbatim>\<open>clusterStream.Recv\<close>.
\<close>

definition DialCluster :: "cluster_env \<Rightarrow> (error + ProxyClusterResponse) list \<Rightarrow> string \<Rightarrow> addr option \<Rightarrow>
    (error + ProxyClusterResponse) list ReadWriter Conn option \<times> error option" where
  "DialCluster env inbox cluster src =
     (case cl_open_stream env of
        Some err \<Rightarrow> (None, Some (FromGRPC err ''unable to establish proxy stream''))
      | None \<Rightarrow>
     (case cl_send_cluster env of
        Some err \<Rightarrow> (None, Some (FromGRPC err ''failed to send cluster request''))
      | None \<Rightarrow>
     (case cl_new_rw env of
        Some err \<Rightarrow> (None, Some (Wrap err ''unable to create stream reader''))
      | None \<Rightarrow>
     (case cl_peer env of
        None \<Rightarrow> (None, Some (BadParameter ''unable to retrieve peer information''))
      | Some a \<Rightarrow> (Some (NewConn (NewReadWriter inbox) src a), None)))))"

section \<open>Properties of the virtual streams\<close>

subsection \<open>Auxiliary facts\<close>

lemma then_run_simps [simp]:
  "then_run (Ok x) f = f x"
  "then_run Blocked f = Blocked"
  "then_run Panic f = Panic"
  by (simp_all add: then_run_def)

lemma then_run_Ok_iff: "then_run r f = Ok y \<longleftrightarrow> (\<exists>x. r = Ok x \<and> f x = Ok y)"
  by (cases r) simp_all

lemma sshStream_Close_eq: "sshStream_Close s = Ok (None, s\<lparr>done_closed := True\<rparr>)"
  by (simp add: sshStream_Close_def chan_close_def)

lemma close_times_eq:
  "close_times n s = Ok (replicate n None, if n = 0 then s else s\<lparr>done_closed := True\<rparr>)"
proof (induction n arbitrary: s)
  case 0
  show ?case by simp
next
  case (Suc n)
  show ?case by (simp add: sshStream_Close_eq Suc.IH)
qed

lemma recv_all_closed:
  "done_closed s \<Longrightarrow> recv_all pks s = (out, s') \<Longrightarrow>
     length out = length pks \<and> frames_of out @ incomingC s' = incomingC s
     \<and> done_closed s' \<and> (\<forall>e. Inl e \<in> set out \<longrightarrow> e = EOF)"
proof (induction pks arbitrary: s out s')
  case Nil
  then show ?case by simp
next
  case (Cons pk pks)
  show ?case
  proof (cases "incomingC s = [] \<or> pk = PickFirst")
    case True
    then have r: "sshStream_Recv pk s = Ok (Inl EOF, s)"
      using Cons.prems(1) by (auto simp: sshStream_Recv_def split: list.splits)
    obtain out1 s1 where t: "recv_all pks s = (out1, s1)" by (cases "recv_all pks s")
    from Cons.IH[OF Cons.prems(1) t] Cons.prems(2) r t show ?thesis by auto
  next
    case False
    then obtain f fs where q: "incomingC s = f # fs" and pk: "pk \<noteq> PickFirst"
      by (cases "incomingC s") auto
    then have r: "sshStream_Recv pk s = Ok (Inr f, s\<lparr>incomingC := fs\<rparr>)"
      by (simp add: sshStream_Recv_def)
    obtain out1 s1 where t: "recv_all pks (s\<lparr>incomingC := fs\<rparr>) = (out1, s1)"
      by (cases "recv_all pks (s\<lparr>incomingC := fs\<rparr>)")
    have d: "done_closed (s\<lparr>incomingC := fs\<rparr>)" using Cons.prems(1) by simp
    from Cons.IH[OF d t] Cons.prems(2) r t q show ?thesis by auto
  qed
qed

lemma recv_all_closed_empty:
  "recv_all pks (s\<lparr>incomingC := [], done_closed := True\<rparr>)
     = (replicate (length pks) (Inl EOF), s\<lparr>incomingC := [], done_closed := True\<rparr>)"
  by (induction pks) (simp_all add: sshStream_Recv_def)












subsection \<open>Closing a virtual stream of the service\<close>

text \<open>
  Claim C9, as far as the code goes. Any sequence of two or more \<^verbatim>\<open>Close\<close> calls returns
  nil each time and does not panic, and it leaves the stream as the first call left it:
  \<^verbatim>\<open>done\<close> is closed once. After that no \<^verbatim>\<open>Recv\<close> blocks, the only error a
  \<^verbatim>\<open>Recv\<close> returns is \<^verbatim>\<open>io.EOF\<close>, and with no frame queued every \<^verbatim>\<open>Recv\<close> returns
  \<^verbatim>\<open>io.EOF\<close>. While frames are queued, a \<^verbatim>\<open>Recv\<close> returns \<^verbatim>\<open>io.EOF\<close> or the oldest
  of them, as the \<^verbatim>\<open>select\<close> chooses; the frames returned are a prefix of the queue.
\<close>

theorem Close_idempotent:
  "close_times (Suc (Suc n)) s = Ok (replicate (Suc (Suc n)) None, s\<lparr>done_closed := True\<rparr>)
   \<and> close_times (Suc 0) s = Ok ([None], s\<lparr>done_closed := True\<rparr>)
   \<and> (case recv_all pks (s\<lparr>done_closed := True\<rparr>) of (out, s') \<Rightarrow>
        length out = length pks \<and> frames_of out @ incomingC s' = incomingC s
        \<and> (\<forall>e. Inl e \<in> set out \<longrightarrow> e = EOF))
   \<and> fst (recv_all pks (s\<lparr>incomingC := [], done_closed := True\<rparr>)) = replicate (length pks) (Inl EOF)"
proof -
  have a: "close_times (Suc (Suc n)) s = Ok (replicate (Suc (Suc n)) None, s\<lparr>done_closed := True\<rparr>)"
    using close_times_eq[of "Suc (Suc n)" s] by simp
  have b: "close_times (Suc 0) s = Ok ([None], s\<lparr>done_closed := True\<rparr>)"
    using close_times_eq[of "Suc 0" s] by simp
  obtain out s' where t: "recv_all pks (s\<lparr>done_closed := True\<rparr>) = (out, s')"
    by (cases "recv_all pks (s\<lparr>done_closed := True\<rparr>)")
  have c: "length out = length pks \<and> frames_of out @ incomingC s' = incomingC s
        \<and> (\<forall>e. Inl e \<in> set out \<longrightarrow> e = EOF)"
    using recv_all_closed[OF _ t] by simp
  show ?thesis using a b c t by (simp add: recv_all_closed_empty)
qed

text \<open>
  The theorem of C9 at a stream with one frame queued, closed three times and then read
  three times, and at the same stream with no frame queued.
\<close>

theorem Close_idempotent_witness:
  "close_times 3 \<lparr>incomingC = [[1]], done_closed = False, responseFn = sshResponse\<rparr>
     = Ok ([None, None, None], \<lparr>incomingC = [[1]], done_closed = True, responseFn = sshResponse\<rparr>)
   \<and> recv_all [PickFirst, PickSecond, PickSecond]
        \<lparr>incomingC = [[1]], done_closed = True, responseFn = sshResponse\<rparr>
     = ([Inl EOF, Inr [1], Inl EOF], \<lparr>incomingC = [], done_closed = True, responseFn = sshResponse\<rparr>)
   \<and> Inl EOF \<in> set [Inl EOF, Inr [1], Inl EOF :: error + payload]
   \<and> fst (recv_all [PickFirst, PickSecond]
        \<lparr>incomingC = [], done_closed = True, responseFn = sshResponse\<rparr>) = [Inl EOF, Inl EOF]"
proof -
  let ?s = "\<lparr>incomingC = [[1]], done_closed = False, responseFn = sshResponse\<rparr>"
  have r: "recv_all [PickFirst, PickSecond, PickSecond] (?s\<lparr>done_closed := True\<rparr>)
     = ([Inl EOF, Inr [1], Inl EOF], \<lparr>incomingC = [], done_closed = True, responseFn = sshResponse\<rparr>)"
    by (simp add: sshStream_Recv_def)
  have m: "Inl EOF \<in> set [Inl EOF, Inr [1], Inl EOF :: error + payload]" by simp
  show ?thesis
    using Close_idempotent [of "Suc 0" ?s "[PickFirst, PickSecond, PickSecond]"]
      Close_idempotent [of "Suc 0" ?s "[PickFirst, PickSecond]"] r m
    by (simp add: numeral_3_eq_3)
qed

text \<open>
  C9 as stated fails: a frame is queued, the stream is closed, and the next \<^verbatim>\<open>Recv\<close>
  takes the second case of the \<^verbatim>\<open>select\<close> and returns the frame, not \<^verbatim>\<open>io.EOF\<close>.
\<close>

theorem Recv_after_Close_counterexample:
  "vs_run [Enqueue [1], CloseStream, Receive PickSecond] (newSSHStream sshResponse, [])
     = Ok (\<lparr>incomingC = [], done_closed = True, responseFn = sshResponse\<rparr>, [Inr [1]])"
  by (simp add: newSSHStream_def chan_send_def sshStream_Close_def chan_close_def sshStream_Recv_def)

subsection \<open>Order and loss of frames in a virtual stream\<close>




section \<open>Properties of the multiplexers\<close>

subsection \<open>Auxiliary facts\<close>

lemma server_iter_ssh:
  assumes "sm_running m" and "sm_pending m = None"
  shows "server_mux_iter ok (Inr \<lparr>DialTarget = dt, req_Frame = Ssh p\<rparr>) m =
     (if length (incomingC (sm_sshStream m)) < 10
      then Ok (m\<lparr>sm_sshStream := (sm_sshStream m)\<lparr>incomingC := incomingC (sm_sshStream m) @ [p]\<rparr>\<rparr>)
      else Blocked)"
  using assms
  by (cases m) (simp add: server_mux_iter_def server_mux_recv_def server_mux_send_def chan_send_def)

lemma server_iter_agent:
  assumes "sm_running m" and "sm_pending m = None"
  shows "server_mux_iter ok (Inr \<lparr>DialTarget = dt, req_Frame = Agent p\<rparr>) m =
     (if length (incomingC (sm_agentStream m)) < 10
      then Ok (m\<lparr>sm_agentStream := (sm_agentStream m)\<lparr>incomingC := incomingC (sm_agentStream m) @ [p]\<rparr>\<rparr>)
      else Blocked)"
  using assms
  by (cases m) (simp add: server_mux_iter_def server_mux_recv_def server_mux_send_def chan_send_def)

lemma server_iter_noframe:
  assumes "sm_running m" and "sm_pending m = None"
  shows "server_mux_iter ok (Inr \<lparr>DialTarget = dt, req_Frame = NoFrame\<rparr>) m =
     Ok (m\<lparr>sm_log := sm_log m @ [''received unexpected ssh frame'']\<rparr>)"
  using assms
  by (simp add: server_mux_iter_def server_mux_recv_def)

lemma client_iter_ssh:
  assumes "cm_running c" and "cm_pending c = None"
  shows "client_mux_iter kr (Inr \<lparr>Details = d, resp_Frame = Ssh p\<rparr>) c =
     (if length (c_incomingC (cm_sshStream c)) < 10
      then Ok (c\<lparr>cm_sshStream := (cm_sshStream c)\<lparr>c_incomingC := c_incomingC (cm_sshStream c) @ [p]\<rparr>\<rparr>)
      else Blocked)"
  using assms
  by (cases c) (simp add: client_mux_iter_def client_mux_recv_def client_mux_send_def chan_send_def)

lemma client_iter_agent:
  assumes "cm_running c" and "cm_pending c = None"
  shows "client_mux_iter (Some k) (Inr \<lparr>Details = d, resp_Frame = Agent p\<rparr>) c =
     (if length (c_incomingC (cm_agentStream c)) < 10
      then Ok (c\<lparr>cm_agentStream := (cm_agentStream c)\<lparr>c_incomingC := c_incomingC (cm_agentStream c) @ [p]\<rparr>,
                 serveOnce := True,
                 serving := (if serveOnce c then serving c else Suc (serving c))\<rparr>)
      else Blocked)"
  using assms
  by (cases c) (simp add: client_mux_iter_def client_mux_recv_def client_mux_send_def chan_send_def)

lemma client_iter_agent_no_keyring:
  assumes "cm_running c" and "cm_pending c = None"
  shows "client_mux_iter None (Inr \<lparr>Details = d, resp_Frame = Agent p\<rparr>) c = Ok c"
  using assms
  by (simp add: client_mux_iter_def client_mux_recv_def)

lemma client_iter_noframe:
  assumes "cm_running c" and "cm_pending c = None"
  shows "client_mux_iter kr (Inr \<lparr>Details = d, resp_Frame = NoFrame\<rparr>) c = Ok c"
  using assms
  by (simp add: client_mux_iter_def client_mux_recv_def)

subsection \<open>Routing by tag\<close>

text \<open>
  Claim C5, as far as the code goes. An iteration of the service's multiplexer appends an
  ssh payload to the ssh stream's queue and an agent payload to the agent stream's queue
  (it blocks while that queue holds 10 frames), and on an envelope with neither tag it
  logs and changes nothing else, so the loop goes on. An iteration of the client's
  multiplexer appends an ssh payload to the ssh stream's queue; it appends an agent
  payload to the agent stream's queue when the caller passed a keyring, and drops it when
  the keyring is nil; an envelope with neither tag changes nothing and nothing is logged.
\<close>

theorem mux_routes_by_tag:
  "(sm_running m \<and> sm_pending m = None \<longrightarrow>
      server_mux_iter ok (Inr \<lparr>DialTarget = dt, req_Frame = Ssh p\<rparr>) m =
        (if length (incomingC (sm_sshStream m)) < 10
         then Ok (m\<lparr>sm_sshStream := (sm_sshStream m)\<lparr>incomingC := incomingC (sm_sshStream m) @ [p]\<rparr>\<rparr>)
         else Blocked)
      \<and> server_mux_iter ok (Inr \<lparr>DialTarget = dt, req_Frame = Agent p\<rparr>) m =
        (if length (incomingC (sm_agentStream m)) < 10
         then Ok (m\<lparr>sm_agentStream := (sm_agentStream m)\<lparr>incomingC := incomingC (sm_agentStream m) @ [p]\<rparr>\<rparr>)
         else Blocked)
      \<and> server_mux_iter ok (Inr \<lparr>DialTarget = dt, req_Frame = NoFrame\<rparr>) m =
        Ok (m\<lparr>sm_log := sm_log m @ [''received unexpected ssh frame'']\<rparr>))
   \<and> (cm_running c \<and> cm_pending c = None \<longrightarrow>
      client_mux_iter kr (Inr \<lparr>Details = d, resp_Frame = Ssh p\<rparr>) c =
        (if length (c_incomingC (cm_sshStream c)) < 10
         then Ok (c\<lparr>cm_sshStream := (cm_sshStream c)\<lparr>c_incomingC := c_incomingC (cm_sshStream c) @ [p]\<rparr>\<rparr>)
         else Blocked)
      \<and> client_mux_iter (Some k) (Inr \<lparr>Details = d, resp_Frame = Agent p\<rparr>) c =
        (if length (c_incomingC (cm_agentStream c)) < 10
         then Ok (c\<lparr>cm_agentStream := (cm_agentStream c)\<lparr>c_incomingC := c_incomingC (cm_agentStream c) @ [p]\<rparr>,
                    serveOnce := True,
                    serving := (if serveOnce c then serving c else Suc (serving c))\<rparr>)
         else Blocked)
      \<and> client_mux_iter None (Inr \<lparr>Details = d, resp_Frame = Agent p\<rparr>) c = Ok c
      \<and> client_mux_iter kr (Inr \<lparr>Details = d, resp_Frame = NoFrame\<rparr>) c = Ok c)"
proof (intro conjI impI)
  assume "sm_running m \<and> sm_pending m = None"
  then have r: "sm_running m" "sm_pending m = None" by simp_all
  show "server_mux_iter ok (Inr \<lparr>DialTarget = dt, req_Frame = Ssh p\<rparr>) m =
        (if length (incomingC (sm_sshStream m)) < 10
         then Ok (m\<lparr>sm_sshStream := (sm_sshStream m)\<lparr>incomingC := incomingC (sm_sshStream m) @ [p]\<rparr>\<rparr>)
         else Blocked)"
    by (rule server_iter_ssh [OF r])
  show "server_mux_iter ok (Inr \<lparr>DialTarget = dt, req_Frame = Agent p\<rparr>) m =
        (if length (incomingC (sm_agentStream m)) < 10
         then Ok (m\<lparr>sm_agentStream := (sm_agentStream m)\<lparr>incomingC := incomingC (sm_agentStream m) @ [p]\<rparr>\<rparr>)
         else Blocked)"
    by (rule server_iter_agent [OF r])
  show "server_mux_iter ok (Inr \<lparr>DialTarget = dt, req_Frame = NoFrame\<rparr>) m =
        Ok (m\<lparr>sm_log := sm_log m @ [''received unexpected ssh frame'']\<rparr>)"
    by (rule server_iter_noframe [OF r])
next
  assume "cm_running c \<and> cm_pending c = None"
  then have r: "cm_running c" "cm_pending c = None" by simp_all
  show "client_mux_iter kr (Inr \<lparr>Details = d, resp_Frame = Ssh p\<rparr>) c =
        (if length (c_incomingC (cm_sshStream c)) < 10
         then Ok (c\<lparr>cm_sshStream := (cm_sshStream c)\<lparr>c_incomingC := c_incomingC (cm_sshStream c) @ [p]\<rparr>\<rparr>)
         else Blocked)"
    by (rule client_iter_ssh [OF r])
  show "client_mux_iter (Some k) (Inr \<lparr>Details = d, resp_Frame = Agent p\<rparr>) c =
        (if length (c_incomingC (cm_agentStream c)) < 10
         then Ok (c\<lparr>cm_agentStream := (cm_agentStream c)\<lparr>c_incomingC := c_incomingC (cm_agentStream c) @ [p]\<rparr>,
                    serveOnce := True,
                    serving := (if serveOnce c then serving c else Suc (serving c))\<rparr>)
         else Blocked)"
    by (rule client_iter_agent [OF r])
  show "client_mux_iter None (Inr \<lparr>Details = d, resp_Frame = Agent p\<rparr>) c = Ok c"
    by (rule client_iter_agent_no_keyring [OF r])
  show "client_mux_iter kr (Inr \<lparr>Details = d, resp_Frame = NoFrame\<rparr>) c = Ok c"
    by (rule client_iter_noframe [OF r])
qed

text \<open>
  The theorem of C5 at the multiplexers as \<^verbatim>\<open>ProxySSH\<close> and \<^verbatim>\<open>DialHost\<close> start them.
\<close>

theorem mux_routes_by_tag_witness:
  "sm_running server_mux_init \<and> sm_pending server_mux_init = None
   \<and> server_mux_iter (\<lambda>e. False) (Inr \<lparr>DialTarget = None, req_Frame = Ssh [1]\<rparr>) server_mux_init
       = Ok (server_mux_init\<lparr>sm_sshStream := (newSSHStream sshResponse)\<lparr>incomingC := [[1]]\<rparr>\<rparr>)
   \<and> server_mux_iter (\<lambda>e. False) (Inr \<lparr>DialTarget = None, req_Frame = Agent [1]\<rparr>) server_mux_init
       = Ok (server_mux_init\<lparr>sm_agentStream := (newSSHStream agentResponse)\<lparr>incomingC := [[1]]\<rparr>\<rparr>)
   \<and> server_mux_iter (\<lambda>e. False) (Inr \<lparr>DialTarget = None, req_Frame = NoFrame\<rparr>) server_mux_init
       = Ok (server_mux_init\<lparr>sm_log := [''received unexpected ssh frame'']\<rparr>)
   \<and> cm_running client_mux_init \<and> cm_pending client_mux_init = None
   \<and> client_mux_iter None (Inr \<lparr>Details = None, resp_Frame = Ssh [1]\<rparr>) client_mux_init
       = Ok (client_mux_init\<lparr>cm_sshStream := (newClientStream sshRequest)\<lparr>c_incomingC := [[1]]\<rparr>\<rparr>)
   \<and> client_mux_iter (Some ''keys'') (Inr \<lparr>Details = None, resp_Frame = Agent [1]\<rparr>) client_mux_init
       = Ok (client_mux_init\<lparr>cm_agentStream := (newClientStream agentRequest)\<lparr>c_incomingC := [[1]]\<rparr>,
                               serveOnce := True, serving := 1\<rparr>)
   \<and> client_mux_iter None (Inr \<lparr>Details = None, resp_Frame = Agent [1]\<rparr>) client_mux_init
       = Ok client_mux_init
   \<and> client_mux_iter None (Inr \<lparr>Details = None, resp_Frame = NoFrame\<rparr>) client_mux_init
       = Ok client_mux_init"
proof -
  have s: "sm_running server_mux_init \<and> sm_pending server_mux_init = None"
    by (simp add: server_mux_init_def)
  have c: "cm_running client_mux_init \<and> cm_pending client_mux_init = None"
    by (simp add: client_mux_init_def)
  have q: "incomingC (sm_sshStream server_mux_init) = []"
    "incomingC (sm_agentStream server_mux_init) = []"
    "c_incomingC (cm_sshStream client_mux_init) = []"
    "c_incomingC (cm_agentStream client_mux_init) = []"
    "sm_sshStream server_mux_init = newSSHStream sshResponse"
    "sm_agentStream server_mux_init = newSSHStream agentResponse"
    "cm_sshStream client_mux_init = newClientStream sshRequest"
    "cm_agentStream client_mux_init = newClientStream agentRequest"
    "sm_log server_mux_init = []" "\<not> serveOnce client_mux_init" "serving client_mux_init = 0"
    by (simp_all add: server_mux_init_def client_mux_init_def newSSHStream_def newClientStream_def)
  show ?thesis
    using mux_routes_by_tag [of server_mux_init "\<lambda>e. False" None "[1]" client_mux_init None None "''keys''"]
      s c q
    by simp
qed

text \<open>
  C5 as stated fails on the client: \<^verbatim>\<open>DialHost\<close> was called with a nil keyring, an
  agent-tagged envelope arrives, and the iteration leaves the agent stream's queue empty.
\<close>

theorem agent_frame_dropped_counterexample:
  "client_mux_iter None (Inr \<lparr>Details = None, resp_Frame = Agent [1]\<rparr>) client_mux_init
     = Ok client_mux_init
   \<and> c_incomingC (cm_agentStream client_mux_init) = []"
  by (simp add: client_mux_iter_def client_mux_recv_def client_mux_init_def newClientStream_def)

subsection \<open>The client's multiplexer over a whole session\<close>

lemma has_agent_frame_append:
  "has_agent_frame (xs @ ys) = (has_agent_frame xs \<or> has_agent_frame ys)"
  by (induction xs rule: has_agent_frame.induct) (simp_all split: ssh_frame.splits)

lemma client_mux_recv_Ok:
  assumes "client_mux_recv kr r m = Ok m'"
  shows "cm_agentStream m' = cm_agentStream m
    \<and> c_incomingC (cm_sshStream m') = c_incomingC (cm_sshStream m)
    \<and> cm_running m
    \<and> (serveOnce m' \<longleftrightarrow> serveOnce m \<or> (kr \<noteq> None \<and> has_agent_frame [r]))
    \<and> serving m' = (if \<not> serveOnce m \<and> kr \<noteq> None \<and> has_agent_frame [r] then Suc (serving m) else serving m)
    \<and> (case r of
          Inl err \<Rightarrow> \<not> cm_running m' \<and> agentRW_closed m' \<and> sshConn_closed m'
                      \<and> errorC (cm_sshStream m') = errorC (cm_sshStream m) @ [err]
        | Inr resp \<Rightarrow> cm_running m' \<and> agentRW_closed m' = agentRW_closed m
                      \<and> sshConn_closed m' = sshConn_closed m
                      \<and> errorC (cm_sshStream m') = errorC (cm_sshStream m))"
  using assms
  by (auto simp: client_mux_recv_def chan_send_def then_run_Ok_iff
      split: if_splits sum.splits ssh_frame.splits)

lemma client_mux_send_Ok:
  assumes "client_mux_send m = Ok m'"
  shows "errorC (cm_agentStream m') = errorC (cm_agentStream m)
    \<and> errorC (cm_sshStream m') = errorC (cm_sshStream m)
    \<and> cm_running m' = cm_running m \<and> serveOnce m' = serveOnce m \<and> serving m' = serving m
    \<and> agentRW_closed m' = agentRW_closed m \<and> sshConn_closed m' = sshConn_closed m"
  using assms
  by (auto simp: client_mux_send_def chan_send_def then_run_Ok_iff
      split: if_splits option.splits pending.splits)

lemma clientStream_Recv_errorC:
  assumes "clientStream_Recv pk st = Ok (r, st')"
  shows "errorC st = [] \<longrightarrow> errorC st' = []"
  using assms
  by (auto simp: clientStream_Recv_def split: list.splits if_splits)

text \<open>
  What holds in every state of a session: the agent stream's \<^verbatim>\<open>errorC\<close> is empty, a
  running multiplexer has delivered no error and closed nothing, a multiplexer that has
  returned has closed both, and the \<^verbatim>\<open>sync.Once\<close> is done exactly when one responder
  has been started.
\<close>

lemma client_step_inv:
  assumes st: "client_step a s = Ok s'"
    and inv: "errorC (cm_agentStream (cs_mux s)) = []"
      "cm_running (cs_mux s) \<longrightarrow> errorC (cm_sshStream (cs_mux s)) = []"
      "\<not> cm_running (cs_mux s) \<longrightarrow> agentRW_closed (cs_mux s) \<and> sshConn_closed (cs_mux s)"
      "serveOnce (cs_mux s) \<longleftrightarrow> serving (cs_mux s) = 1"
      "serving (cs_mux s) \<le> 1"
  shows "errorC (cm_agentStream (cs_mux s')) = []
    \<and> (cm_running (cs_mux s') \<longrightarrow> errorC (cm_sshStream (cs_mux s')) = [])
    \<and> (\<not> cm_running (cs_mux s') \<longrightarrow> agentRW_closed (cs_mux s') \<and> sshConn_closed (cs_mux s'))
    \<and> (serveOnce (cs_mux s') \<longleftrightarrow> serving (cs_mux s') = 1)
    \<and> serving (cs_mux s') \<le> 1
    \<and> cs_keyring s' = cs_keyring s
    \<and> (\<exists>c. cs_inbox s = c @ cs_inbox s'
          \<and> serving (cs_mux s') =
              (if serving (cs_mux s) = 1 \<or> (cs_keyring s \<noteq> None \<and> has_agent_frame c) then 1 else 0))"
proof (cases a)
  case MuxRecv
  with st obtain r rs m where
    ib: "cs_inbox s = r # rs" and
    m: "client_mux_recv (cs_keyring s) r (cs_mux s) = Ok m" and
    s': "s' = s\<lparr>cs_mux := m, cs_inbox := rs\<rparr>"
    by (auto simp: then_run_Ok_iff split: list.splits)
  note f = client_mux_recv_Ok [OF m]
  have c: "cs_inbox s = [r] @ cs_inbox s'" using ib s' by simp
  have sv: "serving (cs_mux s') =
      (if serving (cs_mux s) = 1 \<or> (cs_keyring s \<noteq> None \<and> has_agent_frame [r]) then 1 else 0)"
    using f inv s' by (auto split: if_splits)
  have rest: "errorC (cm_agentStream (cs_mux s')) = []
    \<and> (cm_running (cs_mux s') \<longrightarrow> errorC (cm_sshStream (cs_mux s')) = [])
    \<and> (\<not> cm_running (cs_mux s') \<longrightarrow> agentRW_closed (cs_mux s') \<and> sshConn_closed (cs_mux s'))
    \<and> (serveOnce (cs_mux s') \<longleftrightarrow> serving (cs_mux s') = 1)
    \<and> serving (cs_mux s') \<le> 1
    \<and> cs_keyring s' = cs_keyring s"
    using f inv s' by (cases r) (auto split: if_splits)
  from rest c sv show ?thesis by blast
next
  case MuxSend
  with st obtain m where
    m: "client_mux_send (cs_mux s) = Ok m" and s': "s' = s\<lparr>cs_mux := m\<rparr>"
    by (auto simp: then_run_Ok_iff)
  note f = client_mux_send_Ok [OF m]
  have c: "cs_inbox s = [] @ cs_inbox s'" using s' by simp
  have sv: "serving (cs_mux s') =
      (if serving (cs_mux s) = 1 \<or> (cs_keyring s \<noteq> None \<and> has_agent_frame []) then 1 else 0)"
    using f inv s' by auto
  have rest: "errorC (cm_agentStream (cs_mux s')) = []
    \<and> (cm_running (cs_mux s') \<longrightarrow> errorC (cm_sshStream (cs_mux s')) = [])
    \<and> (\<not> cm_running (cs_mux s') \<longrightarrow> agentRW_closed (cs_mux s') \<and> sshConn_closed (cs_mux s'))
    \<and> (serveOnce (cs_mux s') \<longleftrightarrow> serving (cs_mux s') = 1)
    \<and> serving (cs_mux s') \<le> 1
    \<and> cs_keyring s' = cs_keyring s"
    using f inv s' by auto
  from rest c sv show ?thesis by blast
next
  case (ConnRecv pk)
  with st obtain r t where
    t: "clientStream_Recv pk (cm_sshStream (cs_mux s)) = Ok (r, t)" and
    s': "s' = s\<lparr>cs_mux := (cs_mux s)\<lparr>cm_sshStream := t\<rparr>\<rparr>"
    by (auto simp: then_run_Ok_iff)
  note f = clientStream_Recv_errorC [OF t]
  have c: "cs_inbox s = [] @ cs_inbox s'" using s' by simp
  have sv: "serving (cs_mux s') =
      (if serving (cs_mux s) = 1 \<or> (cs_keyring s \<noteq> None \<and> has_agent_frame []) then 1 else 0)"
    using inv s' by auto
  have rest: "errorC (cm_agentStream (cs_mux s')) = []
    \<and> (cm_running (cs_mux s') \<longrightarrow> errorC (cm_sshStream (cs_mux s')) = [])
    \<and> (\<not> cm_running (cs_mux s') \<longrightarrow> agentRW_closed (cs_mux s') \<and> sshConn_closed (cs_mux s'))
    \<and> (serveOnce (cs_mux s') \<longleftrightarrow> serving (cs_mux s') = 1)
    \<and> serving (cs_mux s') \<le> 1
    \<and> cs_keyring s' = cs_keyring s"
    using f inv s' by auto
  from rest c sv show ?thesis by blast
next
  case (AgentRecv pk)
  with st obtain r t where
    t: "clientStream_Recv pk (cm_agentStream (cs_mux s)) = Ok (r, t)" and
    s': "s' = s\<lparr>cs_mux := (cs_mux s)\<lparr>cm_agentStream := t\<rparr>\<rparr>"
    by (auto simp: then_run_Ok_iff split: if_splits)
  note f = clientStream_Recv_errorC [OF t]
  have c: "cs_inbox s = [] @ cs_inbox s'" using s' by simp
  have sv: "serving (cs_mux s') =
      (if serving (cs_mux s) = 1 \<or> (cs_keyring s \<noteq> None \<and> has_agent_frame []) then 1 else 0)"
    using inv s' by auto
  have rest: "errorC (cm_agentStream (cs_mux s')) = []
    \<and> (cm_running (cs_mux s') \<longrightarrow> errorC (cm_sshStream (cs_mux s')) = [])
    \<and> (\<not> cm_running (cs_mux s') \<longrightarrow> agentRW_closed (cs_mux s') \<and> sshConn_closed (cs_mux s'))
    \<and> (serveOnce (cs_mux s') \<longleftrightarrow> serving (cs_mux s') = 1)
    \<and> serving (cs_mux s') \<le> 1
    \<and> cs_keyring s' = cs_keyring s"
    using f inv s' by auto
  from rest c sv show ?thesis by blast
qed

lemma client_run_inv:
  assumes "errorC (cm_agentStream (cs_mux s)) = []"
      "cm_running (cs_mux s) \<longrightarrow> errorC (cm_sshStream (cs_mux s)) = []"
      "\<not> cm_running (cs_mux s) \<longrightarrow> agentRW_closed (cs_mux s) \<and> sshConn_closed (cs_mux s)"
      "serveOnce (cs_mux s) \<longleftrightarrow> serving (cs_mux s) = 1"
      "serving (cs_mux s) \<le> 1"
  shows "errorC (cm_agentStream (cs_mux (client_run acts s))) = []
    \<and> (cm_running (cs_mux (client_run acts s)) \<longrightarrow> errorC (cm_sshStream (cs_mux (client_run acts s))) = [])
    \<and> (\<not> cm_running (cs_mux (client_run acts s)) \<longrightarrow>
          agentRW_closed (cs_mux (client_run acts s)) \<and> sshConn_closed (cs_mux (client_run acts s)))
    \<and> serving (cs_mux (client_run acts s)) \<le> 1
    \<and> (\<exists>c. cs_inbox s = c @ cs_inbox (client_run acts s)
          \<and> serving (cs_mux (client_run acts s)) =
              (if serving (cs_mux s) = 1 \<or> (cs_keyring s \<noteq> None \<and> has_agent_frame c) then 1 else 0))"
  using assms
proof (induction acts arbitrary: s)
  case Nil
  have "cs_inbox s = [] @ cs_inbox s" by simp
  moreover have "serving (cs_mux s) =
      (if serving (cs_mux s) = 1 \<or> (cs_keyring s \<noteq> None \<and> has_agent_frame []) then 1 else 0)"
    using Nil.prems by auto
  ultimately show ?case using Nil.prems by (simp del: append_Nil)
next
  case (Cons a acts)
  show ?case
  proof (cases "client_step a s")
    case (Ok s1)
    note f = client_step_inv [OF Ok Cons.prems]
    then obtain c1 where c1: "cs_inbox s = c1 @ cs_inbox s1"
      and sv1: "serving (cs_mux s1) =
        (if serving (cs_mux s) = 1 \<or> (cs_keyring s \<noteq> None \<and> has_agent_frame c1) then 1 else 0)"
      by blast
    have ih: "errorC (cm_agentStream (cs_mux (client_run acts s1))) = []
      \<and> (cm_running (cs_mux (client_run acts s1)) \<longrightarrow> errorC (cm_sshStream (cs_mux (client_run acts s1))) = [])
      \<and> (\<not> cm_running (cs_mux (client_run acts s1)) \<longrightarrow>
            agentRW_closed (cs_mux (client_run acts s1)) \<and> sshConn_closed (cs_mux (client_run acts s1)))
      \<and> serving (cs_mux (client_run acts s1)) \<le> 1
      \<and> (\<exists>c. cs_inbox s1 = c @ cs_inbox (client_run acts s1)
            \<and> serving (cs_mux (client_run acts s1)) =
                (if serving (cs_mux s1) = 1 \<or> (cs_keyring s1 \<noteq> None \<and> has_agent_frame c) then 1 else 0))"
      using f by (intro Cons.IH) simp_all
    then obtain c2 where c2: "cs_inbox s1 = c2 @ cs_inbox (client_run acts s1)"
      and sv2: "serving (cs_mux (client_run acts s1)) =
        (if serving (cs_mux s1) = 1 \<or> (cs_keyring s1 \<noteq> None \<and> has_agent_frame c2) then 1 else 0)"
      by blast
    have k: "cs_keyring s1 = cs_keyring s" using f by simp
    have c: "cs_inbox s = (c1 @ c2) @ cs_inbox (client_run acts s1)" using c1 c2 by simp
    have sv: "serving (cs_mux (client_run acts s1)) =
        (if serving (cs_mux s) = 1 \<or> (cs_keyring s \<noteq> None \<and> has_agent_frame (c1 @ c2)) then 1 else 0)"
      using sv1 sv2 k by (auto simp: has_agent_frame_append)
    have r: "client_run (a # acts) s = client_run acts s1" using Ok by simp
    show ?thesis unfolding r using ih c sv by blast
  next
    case Blocked
    then have r: "client_run (a # acts) s = client_run acts s" by simp
    show ?thesis unfolding r using Cons.prems by (intro Cons.IH)
  next
    case Panic
    then have r: "client_run (a # acts) s = client_run acts s" by simp
    show ?thesis unfolding r using Cons.prems by (intro Cons.IH)
  qed
qed

lemma client_run_init:
  fixes inbox kr acts
  defines "s \<equiv> client_run acts \<lparr>cs_mux = client_mux_init, cs_inbox = inbox, cs_keyring = kr\<rparr>"
  shows "errorC (cm_agentStream (cs_mux s)) = []
    \<and> (cm_running (cs_mux s) \<longrightarrow> errorC (cm_sshStream (cs_mux s)) = [])
    \<and> (\<not> cm_running (cs_mux s) \<longrightarrow> agentRW_closed (cs_mux s) \<and> sshConn_closed (cs_mux s))
    \<and> serving (cs_mux s) \<le> 1
    \<and> serving (cs_mux s) =
        (if kr \<noteq> None \<and> has_agent_frame (take (length inbox - length (cs_inbox s)) inbox) then 1 else 0)"
proof -
  let ?s0 = "\<lparr>cs_mux = client_mux_init, cs_inbox = inbox, cs_keyring = kr\<rparr>"
  have i: "errorC (cm_agentStream (cs_mux ?s0)) = []"
      "cm_running (cs_mux ?s0) \<longrightarrow> errorC (cm_sshStream (cs_mux ?s0)) = []"
      "\<not> cm_running (cs_mux ?s0) \<longrightarrow> agentRW_closed (cs_mux ?s0) \<and> sshConn_closed (cs_mux ?s0)"
      "serveOnce (cs_mux ?s0) \<longleftrightarrow> serving (cs_mux ?s0) = 1"
      "serving (cs_mux ?s0) \<le> 1"
    by (simp_all add: client_mux_init_def newClientStream_def)
  note f = client_run_inv [OF i, of acts, folded s_def]
  then obtain c where c: "cs_inbox ?s0 = c @ cs_inbox s"
    and sv: "serving (cs_mux s) =
      (if serving (cs_mux ?s0) = 1 \<or> (cs_keyring ?s0 \<noteq> None \<and> has_agent_frame c) then 1 else 0)"
    by blast
  have "take (length inbox - length (cs_inbox s)) inbox = c" using c by simp
  moreover have "serving (cs_mux ?s0) = 0" by (simp add: client_mux_init_def)
  ultimately have "serving (cs_mux s) =
        (if kr \<noteq> None \<and> has_agent_frame (take (length inbox - length (cs_inbox s)) inbox) then 1 else 0)"
    using sv by simp
  then show ?thesis using f by blast
qed

lemma has_agent_frame_take:
  "has_agent_frame (take n xs) \<Longrightarrow> has_agent_frame xs"
  using has_agent_frame_append [of "take n xs" "drop n xs"] by simp

lemma client_mux_recv_error:
  assumes "cm_running m" and "cm_pending m = None" and "errorC (cm_sshStream m) = []"
  shows "client_mux_recv kr (Inl err) m =
     Ok (m\<lparr>cm_sshStream := (cm_sshStream m)\<lparr>errorC := [err]\<rparr>,
           agentRW_closed := True, sshConn_closed := True, cm_running := False\<rparr>)"
  using assms by (simp add: client_mux_recv_def chan_send_def)

lemma c_recv_all_error:
  "errorC st = [err] \<Longrightarrow> length (c_incomingC st) < length pks \<Longrightarrow>
     Inl (Wrap err []) \<in> set (fst (c_recv_all pks st))"
proof (induction pks arbitrary: st)
  case Nil
  then show ?case by simp
next
  case (Cons pk pks)
  show ?case
  proof (cases "c_incomingC st = [] \<or> pk = PickFirst")
    case True
    then have "clientStream_Recv pk st = Ok (Inl (Wrap err []), st\<lparr>errorC := []\<rparr>)"
      using Cons.prems(1) by (auto simp: clientStream_Recv_def split: list.splits)
    then show ?thesis by (simp split: prod.splits)
  next
    case False
    then obtain f fs where q: "c_incomingC st = f # fs" and pk: "pk \<noteq> PickFirst"
      by (cases "c_incomingC st") auto
    then have r: "clientStream_Recv pk st = Ok (Inr f, st\<lparr>c_incomingC := fs\<rparr>)"
      using Cons.prems(1) by (simp add: clientStream_Recv_def)
    have "Inl (Wrap err []) \<in> set (fst (c_recv_all pks (st\<lparr>c_incomingC := fs\<rparr>)))"
      using Cons.prems q by (intro Cons.IH) simp_all
    then show ?thesis using r
      by (cases "c_recv_all pks (st\<lparr>c_incomingC := fs\<rparr>)") simp
  qed
qed

subsection \<open>A terminal error of the parent stream on the client\<close>

text \<open>
  Claim C6, the delivery of the error. In every state of a client session, whatever the
  parent stream delivers and however the steps interleave, the agent stream's
  \<^verbatim>\<open>errorC\<close> is empty: no error is ever delivered to the agent stream. While the multiplexer runs, the ssh stream's
  \<^verbatim>\<open>errorC\<close> is empty too; once it has returned, \<^verbatim>\<open>agentRW\<close> and \<^verbatim>\<open>sshConn\<close> are
  closed. The step that receives the error \<open>err\<close> puts it into the ssh stream's
  \<^verbatim>\<open>errorC\<close>, closes both and ends the goroutine, and it changes nothing else. The
  consumer of the ssh stream then gets the error (wrapped) from a \<^verbatim>\<open>Recv\<close>: at the
  latest from the one after the frames still queued.
\<close>

theorem terminal_error_only_to_ssh_stream:
  "errorC (cm_agentStream (cs_mux
      (client_run acts \<lparr>cs_mux = client_mux_init, cs_inbox = inbox, cs_keyring = kr\<rparr>))) = []
   \<and> (cm_running (cs_mux
        (client_run acts \<lparr>cs_mux = client_mux_init, cs_inbox = inbox, cs_keyring = kr\<rparr>)) \<longrightarrow>
      errorC (cm_sshStream (cs_mux
        (client_run acts \<lparr>cs_mux = client_mux_init, cs_inbox = inbox, cs_keyring = kr\<rparr>))) = [])
   \<and> (\<not> cm_running (cs_mux
        (client_run acts \<lparr>cs_mux = client_mux_init, cs_inbox = inbox, cs_keyring = kr\<rparr>)) \<longrightarrow>
      agentRW_closed (cs_mux
        (client_run acts \<lparr>cs_mux = client_mux_init, cs_inbox = inbox, cs_keyring = kr\<rparr>))
      \<and> sshConn_closed (cs_mux
        (client_run acts \<lparr>cs_mux = client_mux_init, cs_inbox = inbox, cs_keyring = kr\<rparr>)))
   \<and> (cm_running m \<and> cm_pending m = None \<and> errorC (cm_sshStream m) = [] \<longrightarrow>
        client_mux_recv kr (Inl err) m =
          Ok (m\<lparr>cm_sshStream := (cm_sshStream m)\<lparr>errorC := [err]\<rparr>,
                agentRW_closed := True, sshConn_closed := True, cm_running := False\<rparr>))
   \<and> (errorC st = [err] \<and> length (c_incomingC st) < length pks \<longrightarrow>
        Inl (Wrap err []) \<in> set (fst (c_recv_all pks st)))"
proof -
  note f = client_run_init [of acts inbox kr]
  have a: "cm_running m \<and> cm_pending m = None \<and> errorC (cm_sshStream m) = [] \<longrightarrow>
        client_mux_recv kr (Inl err) m =
          Ok (m\<lparr>cm_sshStream := (cm_sshStream m)\<lparr>errorC := [err]\<rparr>,
                agentRW_closed := True, sshConn_closed := True, cm_running := False\<rparr>)"
    using client_mux_recv_error [of m kr err] by blast
  have b: "errorC st = [err] \<and> length (c_incomingC st) < length pks \<longrightarrow>
        Inl (Wrap err []) \<in> set (fst (c_recv_all pks st))"
    using c_recv_all_error [of st err pks] by blast
  from f a b show ?thesis by blast
qed

text \<open>
  That theorem at a session in which the stream delivers an agent frame, an ssh frame
  and then an error, with a keyring: the error ends in the ssh stream's \<^verbatim>\<open>errorC\<close>
  only, and the consumer's second \<^verbatim>\<open>Recv\<close> returns it.
\<close>

theorem terminal_error_only_to_ssh_stream_witness:
  "cs_mux (client_run [MuxRecv, MuxSend, MuxRecv, MuxSend, MuxRecv]
      \<lparr>cs_mux = client_mux_init,
       cs_inbox = [Inr \<lparr>Details = None, resp_Frame = Agent [1]\<rparr>,
                   Inr \<lparr>Details = None, resp_Frame = Ssh [2]\<rparr>, Inl (Remote ''reset'')],
       cs_keyring = Some ''keys''\<rparr>)
     = client_mux_init
        \<lparr>cm_sshStream := \<lparr>c_incomingC = [[2]], errorC = [Remote ''reset''], requestFn = sshRequest\<rparr>,
         cm_agentStream := \<lparr>c_incomingC = [[1]], errorC = [], requestFn = agentRequest\<rparr>,
         serveOnce := True, serving := 1,
         agentRW_closed := True, sshConn_closed := True, cm_running := False\<rparr>
   \<and> client_mux_recv (Some ''keys'') (Inl (Remote ''reset'')) client_mux_init
     = Ok (client_mux_init
        \<lparr>cm_sshStream := \<lparr>c_incomingC = [], errorC = [Remote ''reset''], requestFn = sshRequest\<rparr>,
         agentRW_closed := True, sshConn_closed := True, cm_running := False\<rparr>)
   \<and> Inl (Wrap (Remote ''reset'') []) \<in> set (fst (c_recv_all [PickSecond, PickSecond]
        \<lparr>c_incomingC = [[2]], errorC = [Remote ''reset''], requestFn = sshRequest\<rparr>))"
proof -
  let ?inbox = "[Inr \<lparr>Details = None, resp_Frame = Agent [1]\<rparr>,
                 Inr \<lparr>Details = None, resp_Frame = Ssh [2]\<rparr>, Inl (Remote ''reset'')]"
  let ?st = "\<lparr>c_incomingC = [[2]], errorC = [Remote ''reset''], requestFn = sshRequest\<rparr>"
  have r: "cs_mux (client_run [MuxRecv, MuxSend, MuxRecv, MuxSend, MuxRecv]
      \<lparr>cs_mux = client_mux_init, cs_inbox = ?inbox, cs_keyring = Some ''keys''\<rparr>)
     = client_mux_init
        \<lparr>cm_sshStream := ?st,
         cm_agentStream := \<lparr>c_incomingC = [[1]], errorC = [], requestFn = agentRequest\<rparr>,
         serveOnce := True, serving := 1,
         agentRW_closed := True, sshConn_closed := True, cm_running := False\<rparr>"
    by (simp add: client_mux_recv_def client_mux_send_def client_mux_init_def
        newClientStream_def chan_send_def)
  have h1: "cm_running client_mux_init \<and> cm_pending client_mux_init = None
      \<and> errorC (cm_sshStream client_mux_init) = []"
    by (simp add: client_mux_init_def newClientStream_def)
  have h2: "errorC ?st = [Remote ''reset''] \<and> length (c_incomingC ?st) < length [PickSecond, PickSecond]"
    by simp
  have e: "(cm_sshStream client_mux_init)\<lparr>errorC := [Remote ''reset'']\<rparr>
      = \<lparr>c_incomingC = [], errorC = [Remote ''reset''], requestFn = sshRequest\<rparr>"
    by (simp add: client_mux_init_def newClientStream_def)
  show ?thesis
    using terminal_error_only_to_ssh_stream
        [of "[MuxRecv, MuxSend, MuxRecv, MuxSend, MuxRecv]" ?inbox "Some ''keys''"
            client_mux_init "Remote ''reset''" ?st "[PickSecond, PickSecond]"]
      r h1 h2 e
    by simp
qed

lemma client_step_returned:
  assumes "client_step a s = Ok s'"
    and "\<not> cm_running (cs_mux s)" and "cm_pending (cs_mux s) = None"
  shows "\<not> cm_running (cs_mux s') \<and> cm_pending (cs_mux s') = None
    \<and> (c_incomingC (cm_agentStream (cs_mux s)) = [] \<longrightarrow> c_incomingC (cm_agentStream (cs_mux s')) = [])"
proof (cases a)
  case MuxRecv
  with assms show ?thesis
    by (auto simp: client_mux_recv_def then_run_Ok_iff split: list.splits)
next
  case MuxSend
  with assms show ?thesis
    by (auto simp: client_mux_send_def then_run_Ok_iff)
next
  case (ConnRecv pk)
  with assms show ?thesis
    by (auto simp: then_run_Ok_iff)
next
  case (AgentRecv pk)
  with assms show ?thesis
    by (auto simp: then_run_Ok_iff clientStream_Recv_def split: if_splits list.splits)
qed

lemma client_run_returned:
  assumes "\<not> cm_running (cs_mux s)" and "cm_pending (cs_mux s) = None"
    and "c_incomingC (cm_agentStream (cs_mux s)) = []"
  shows "\<not> cm_running (cs_mux (client_run acts s)) \<and> cm_pending (cs_mux (client_run acts s)) = None
    \<and> c_incomingC (cm_agentStream (cs_mux (client_run acts s))) = []"
  using assms
proof (induction acts arbitrary: s)
  case Nil
  then show ?case by simp
next
  case (Cons a acts)
  show ?case
  proof (cases "client_step a s")
    case (Ok s1)
    from client_step_returned [OF Ok Cons.prems(1,2)] Cons.prems(3)
    have "\<not> cm_running (cs_mux s1)" "cm_pending (cs_mux s1) = None"
      "c_incomingC (cm_agentStream (cs_mux s1)) = []"
      by simp_all
    then show ?thesis using Ok Cons.IH [of s1] by simp
  next
    case Blocked
    then show ?thesis using Cons.IH [OF Cons.prems] by simp
  next
    case Panic
    then show ?thesis using Cons.IH [OF Cons.prems] by simp
  qed
qed

lemma client_step_pending_running:
  assumes "client_step a s = Ok s'"
    and "cm_pending (cs_mux s) \<noteq> None \<longrightarrow> cm_running (cs_mux s)"
  shows "cm_pending (cs_mux s') \<noteq> None \<longrightarrow> cm_running (cs_mux s')"
proof (cases a)
  case MuxRecv
  with assms show ?thesis
    by (auto simp: client_mux_recv_def then_run_Ok_iff chan_send_def
        split: list.splits if_splits sum.splits ssh_frame.splits)
next
  case MuxSend
  with assms show ?thesis
    by (auto simp: client_mux_send_def then_run_Ok_iff split: option.splits pending.splits)
next
  case (ConnRecv pk)
  with assms show ?thesis
    by (auto simp: then_run_Ok_iff)
next
  case (AgentRecv pk)
  with assms show ?thesis
    by (auto simp: then_run_Ok_iff split: if_splits)
qed

lemma client_run_pending_running:
  assumes "cm_pending (cs_mux s) \<noteq> None \<longrightarrow> cm_running (cs_mux s)"
  shows "cm_pending (cs_mux (client_run acts s)) \<noteq> None \<longrightarrow> cm_running (cs_mux (client_run acts s))"
  using assms
proof (induction acts arbitrary: s)
  case Nil
  then show ?case by simp
next
  case (Cons a acts)
  show ?case
  proof (cases "client_step a s")
    case (Ok s1)
    from client_step_pending_running [OF Ok Cons.prems]
    show ?thesis using Ok Cons.IH [of s1] by simp
  next
    case Blocked
    then show ?thesis using Cons.IH [OF Cons.prems] by simp
  next
    case Panic
    then show ?thesis using Cons.IH [OF Cons.prems] by simp
  qed
qed

lemma agent_recv_blocked:
  assumes "c_incomingC (cm_agentStream (cs_mux s)) = []" and "errorC (cm_agentStream (cs_mux s)) = []"
  shows "client_step (AgentRecv pk) s = Blocked"
  using assms by (simp add: clientStream_Recv_def)

lemma client_run_append:
  "client_run (acts @ acts') s = client_run acts' (client_run acts s)"
proof (induction acts arbitrary: s)
  case Nil
  show ?case by simp
next
  case (Cons a acts)
  show ?case by (cases "client_step a s") (simp_all add: Cons.IH)
qed

subsection \<open>The agent stream after the multiplexer has returned\<close>

text \<open>
  Claim C6, the termination of the agent stream. The client's \<^verbatim>\<open>sshStream\<close> has the
  methods \<^verbatim>\<open>Recv\<close> and \<^verbatim>\<open>Send\<close> and no \<^verbatim>\<open>Close\<close>, and its \<^verbatim>\<open>Recv\<close> waits for
  \<^verbatim>\<open>errorC\<close> or \<^verbatim>\<open>incomingC\<close> only, so \<^verbatim>\<open>agentRW.Close()\<close> has nothing of the agent
  stream to act on. In every state of a session in which the multiplexer has returned and
  the agent stream's queue is empty, \<^verbatim>\<open>agentRW\<close> has been closed, and yet a \<^verbatim>\<open>Recv\<close> on
  the agent stream blocks, there and after any further steps of the session: closing the
  reader/writer does not terminate the agent stream, and a responder that reads it is
  never released.
\<close>

theorem agent_stream_not_terminated:
  "\<not> cm_running (cs_mux
        (client_run acts \<lparr>cs_mux = client_mux_init, cs_inbox = inbox, cs_keyring = kr\<rparr>))
   \<and> c_incomingC (cm_agentStream (cs_mux
        (client_run acts \<lparr>cs_mux = client_mux_init, cs_inbox = inbox, cs_keyring = kr\<rparr>))) = []
   \<longrightarrow>
     agentRW_closed (cs_mux
        (client_run acts \<lparr>cs_mux = client_mux_init, cs_inbox = inbox, cs_keyring = kr\<rparr>))
     \<and> clientStream_Recv pk (cm_agentStream (cs_mux
          (client_run acts'
            (client_run acts \<lparr>cs_mux = client_mux_init, cs_inbox = inbox, cs_keyring = kr\<rparr>))))
        = Blocked"
proof
  let ?init = "\<lparr>cs_mux = client_mux_init, cs_inbox = inbox, cs_keyring = kr\<rparr>"
  let ?st = "client_run acts ?init"
  assume h: "\<not> cm_running (cs_mux ?st) \<and> c_incomingC (cm_agentStream (cs_mux ?st)) = []"
  have closed: "agentRW_closed (cs_mux ?st)"
    using client_run_init [of acts inbox kr] h by blast
  have "cm_pending (cs_mux ?init) \<noteq> None \<longrightarrow> cm_running (cs_mux ?init)"
    by (simp add: client_mux_init_def)
  then have "cm_pending (cs_mux ?st) \<noteq> None \<longrightarrow> cm_running (cs_mux ?st)"
    by (rule client_run_pending_running)
  with h have p: "cm_pending (cs_mux ?st) = None" by blast
  have q: "c_incomingC (cm_agentStream (cs_mux (client_run acts' ?st))) = []"
    using client_run_returned [of ?st acts'] h p by blast
  have "errorC (cm_agentStream (cs_mux (client_run (acts @ acts') ?init))) = []"
    using client_run_init [of "acts @ acts'" inbox kr] by blast
  then have e: "errorC (cm_agentStream (cs_mux (client_run acts' ?st))) = []"
    by (simp add: client_run_append)
  have "clientStream_Recv pk (cm_agentStream (cs_mux (client_run acts' ?st))) = Blocked"
    using q e by (simp add: clientStream_Recv_def)
  with closed show "agentRW_closed (cs_mux ?st)
     \<and> clientStream_Recv pk (cm_agentStream (cs_mux (client_run acts' ?st))) = Blocked"
    by blast
qed

text \<open>
  The theorem at a session with a keyring in which the stream delivers one agent frame and
  then an error: the responder is started and reads the frame, the multiplexer receives
  the error, closes \<^verbatim>\<open>agentRW\<close> and returns, and the responder's next \<^verbatim>\<open>Recv\<close> on the
  agent stream blocks, also after every step of the session has had another turn.
\<close>

theorem agent_stream_not_terminated_witness:
  "cs_mux (client_run [MuxRecv, MuxSend, AgentRecv PickSecond, MuxRecv]
      \<lparr>cs_mux = client_mux_init,
       cs_inbox = [Inr \<lparr>Details = None, resp_Frame = Agent [1]\<rparr>, Inl (Remote ''reset'')],
       cs_keyring = Some ''keys''\<rparr>)
     = client_mux_init
        \<lparr>cm_sshStream := \<lparr>c_incomingC = [], errorC = [Remote ''reset''], requestFn = sshRequest\<rparr>,
         serveOnce := True, serving := 1,
         agentRW_closed := True, sshConn_closed := True, cm_running := False\<rparr>
   \<and> clientStream_Recv PickFirst (cm_agentStream (cs_mux
        (client_run [MuxRecv, MuxSend, ConnRecv PickFirst, AgentRecv PickFirst]
          (client_run [MuxRecv, MuxSend, AgentRecv PickSecond, MuxRecv]
            \<lparr>cs_mux = client_mux_init,
             cs_inbox = [Inr \<lparr>Details = None, resp_Frame = Agent [1]\<rparr>, Inl (Remote ''reset'')],
             cs_keyring = Some ''keys''\<rparr>))))
     = Blocked"
proof -
  let ?inbox = "[Inr \<lparr>Details = None, resp_Frame = Agent [1]\<rparr>, Inl (Remote ''reset'')]"
  let ?acts = "[MuxRecv, MuxSend, AgentRecv PickSecond, MuxRecv]"
  let ?init = "\<lparr>cs_mux = client_mux_init, cs_inbox = ?inbox, cs_keyring = Some ''keys''\<rparr>"
  have r: "cs_mux (client_run ?acts ?init)
     = client_mux_init
        \<lparr>cm_sshStream := \<lparr>c_incomingC = [], errorC = [Remote ''reset''], requestFn = sshRequest\<rparr>,
         serveOnce := True, serving := 1,
         agentRW_closed := True, sshConn_closed := True, cm_running := False\<rparr>"
    by (simp add: client_mux_recv_def client_mux_send_def client_mux_init_def
        newClientStream_def chan_send_def clientStream_Recv_def)
  have h: "\<not> cm_running (cs_mux (client_run ?acts ?init))
      \<and> c_incomingC (cm_agentStream (cs_mux (client_run ?acts ?init))) = []"
    unfolding r by (simp add: client_mux_init_def newClientStream_def)
  show ?thesis
    using agent_stream_not_terminated
        [of ?acts ?inbox "Some ''keys''" PickFirst "[MuxRecv, MuxSend, ConnRecv PickFirst, AgentRecv PickFirst]"]
      h r
    by simp
qed

subsection \<open>Starting the agent responder\<close>

text \<open>
  Claim C7. In every state of a client session, whatever the parent stream delivers and
  however the steps interleave, the number of \<^verbatim>\<open>agent.ServeAgent\<close> goroutines started is
  1 when the caller passed a keyring and an agent-tagged envelope is among those the
  multiplexer has received so far, and 0 otherwise. So the responder is started at most
  once; it is never started without a keyring, nor when the stream delivers no agent frame.
\<close>

theorem agent_served_at_most_once:
  "serving (cs_mux (client_run acts \<lparr>cs_mux = client_mux_init, cs_inbox = inbox, cs_keyring = kr\<rparr>))
     = (if kr \<noteq> None
           \<and> has_agent_frame (take (length inbox
                - length (cs_inbox (client_run acts
                    \<lparr>cs_mux = client_mux_init, cs_inbox = inbox, cs_keyring = kr\<rparr>))) inbox)
        then 1 else 0)
   \<and> serving (cs_mux (client_run acts \<lparr>cs_mux = client_mux_init, cs_inbox = inbox, cs_keyring = kr\<rparr>)) \<le> 1
   \<and> (kr = None \<or> \<not> has_agent_frame inbox \<longrightarrow>
        serving (cs_mux (client_run acts \<lparr>cs_mux = client_mux_init, cs_inbox = inbox, cs_keyring = kr\<rparr>)) = 0)"
proof -
  note f = client_run_init [of acts inbox kr]
  let ?s = "client_run acts \<lparr>cs_mux = client_mux_init, cs_inbox = inbox, cs_keyring = kr\<rparr>"
  have a: "serving (cs_mux ?s)
     = (if kr \<noteq> None \<and> has_agent_frame (take (length inbox - length (cs_inbox ?s)) inbox) then 1 else 0)"
    using f by blast
  have b: "serving (cs_mux ?s) \<le> 1" using f by blast
  have c: "kr = None \<or> \<not> has_agent_frame inbox \<longrightarrow> serving (cs_mux ?s) = 0"
    using a has_agent_frame_take [of "length inbox - length (cs_inbox ?s)" inbox]
    by (auto split: if_splits)
  from a b c show ?thesis by blast
qed

text \<open>
  The theorem of C7 at three sessions: two agent frames with a keyring (one responder),
  the same frames without a keyring, and a keyring with no agent frame (none).
\<close>

theorem agent_served_at_most_once_witness:
  "serving (cs_mux (client_run [MuxRecv, MuxSend, MuxRecv, MuxSend, MuxRecv]
      \<lparr>cs_mux = client_mux_init,
       cs_inbox = [Inr \<lparr>Details = None, resp_Frame = Agent [1]\<rparr>,
                   Inr \<lparr>Details = None, resp_Frame = Agent [2]\<rparr>, Inl EOF],
       cs_keyring = Some ''keys''\<rparr>)) = 1
   \<and> serving (cs_mux (client_run [MuxRecv, MuxSend, MuxRecv, MuxSend, MuxRecv]
      \<lparr>cs_mux = client_mux_init,
       cs_inbox = [Inr \<lparr>Details = None, resp_Frame = Agent [1]\<rparr>,
                   Inr \<lparr>Details = None, resp_Frame = Agent [2]\<rparr>, Inl EOF],
       cs_keyring = None\<rparr>)) = 0
   \<and> serving (cs_mux (client_run [MuxRecv, MuxSend, MuxRecv]
      \<lparr>cs_mux = client_mux_init,
       cs_inbox = [Inr \<lparr>Details = None, resp_Frame = Ssh [1]\<rparr>, Inl EOF],
       cs_keyring = Some ''keys''\<rparr>)) = 0"
proof -
  let ?agents = "[Inr \<lparr>Details = None, resp_Frame = Agent [1]\<rparr>,
                  Inr \<lparr>Details = None, resp_Frame = Agent [2]\<rparr>, Inl EOF]"
  let ?acts = "[MuxRecv, MuxSend, MuxRecv, MuxSend, MuxRecv]"
  have i: "cs_inbox (client_run ?acts
      \<lparr>cs_mux = client_mux_init, cs_inbox = ?agents, cs_keyring = Some ''keys''\<rparr>) = []"
    by (simp add: client_mux_recv_def client_mux_send_def client_mux_init_def
        newClientStream_def chan_send_def)
  have h: "None = (None :: keyring option) \<or> \<not> has_agent_frame ?agents"
    "Some ''keys'' = None \<or> \<not> has_agent_frame [Inr \<lparr>Details = None, resp_Frame = Ssh [1]\<rparr>, Inl EOF]"
    by simp_all
  show ?thesis
    using agent_served_at_most_once [of ?acts ?agents "Some ''keys''"]
      agent_served_at_most_once [of ?acts ?agents None]
      agent_served_at_most_once [of "[MuxRecv, MuxSend, MuxRecv]"
          "[Inr \<lparr>Details = None, resp_Frame = Ssh [1]\<rparr>, Inl EOF]" "Some ''keys''"]
      i h
    by simp
qed

section \<open>Properties of the host session handshake\<close>

subsection \<open>Auxiliary facts\<close>








text \<open>The events of a call up to the return of the dialer.\<close>

lemma NewService_checker:
  "NewService cfg0 = Inr cfg \<Longrightarrow> \<exists>checkerFn. accessCheckerFn cfg = Some checkerFn"
  by (auto simp: NewService_def CheckAndSetDefaults_def split: if_splits option.splits)

lemma ProxySSH_unauthorized:
  assumes "accessCheckerFn cfg = Some checkerFn" and "\<not> authorized cfg env"
  shows "(env_peer env = None
        \<and> ProxySSH cfg split env = Ok ([], Some (BadParameter ''unable to find peer'')))
      \<or> (\<exists>p e. env_peer env = Some p \<and> checkerFn (peer_AuthInfo p) = Inl e
        \<and> ProxySSH cfg split env = Ok ([EvAccessCheck (peer_AuthInfo p)], Some (Wrap e [])))"
  using assms
  by (cases "env_peer env")
    (auto simp: authorized_def ProxySSH_def split: sum.splits)

lemma ProxySSH_bad_target:
  assumes "authorized cfg env" and "first_recv env = Inr req"
    and "DialTarget req = None \<or> (\<exists>t. DialTarget req = Some t \<and> isl (split (HostPort t)))"
  shows "\<exists>p. env_peer env = Some p \<and>
      ProxySSH cfg split env =
        Ok ([EvAccessCheck (peer_AuthInfo p), EvRecv],
            Some (BadParameter (if DialTarget req = None
                                then ''first frame must contain a dial target''
                                else ''dial target contains an invalid hostport'')))"
  using assms
  by (auto simp: authorized_def ProxySSH_def isl_def split: option.splits sum.splits)





subsection \<open>Authorization before dialing\<close>

text \<open>
  Claim C3. In a service built by \<^verbatim>\<open>NewService\<close>, when no peer is attached to the
  context, or the access-checker resolver returns an error, \<^verbatim>\<open>ProxySSH\<close> returns an
  error without calling the dialer, without
  reading the stream, without starting the multiplexer and without sending anything. The
  error is \<^verbatim>\<open>BadParameter("unable to find peer")\<close> in the first case and the resolver's
  error, wrapped, in the second.
\<close>

theorem no_dial_without_authorization:
  assumes "NewService cfg0 = Inr cfg" and "\<not> authorized cfg env"
  shows "\<exists>checkerFn evs err. accessCheckerFn cfg = Some checkerFn
    \<and> ProxySSH cfg split env = Ok (evs, Some err)
    \<and> dial_calls evs = 0 \<and> sent_of evs = [] \<and> EvRecv \<notin> set evs \<and> EvGoMux \<notin> set evs
    \<and> ((env_peer env = None \<and> err = BadParameter ''unable to find peer'')
       \<or> (\<exists>p e. env_peer env = Some p \<and> checkerFn (peer_AuthInfo p) = Inl e \<and> err = Wrap e []))"
proof -
  from assms(1) obtain checkerFn where c: "accessCheckerFn cfg = Some checkerFn"
    using NewService_checker by blast
  from ProxySSH_unauthorized [OF c assms(2), of split] c show ?thesis by auto
qed

text \<open>
  The theorem of C3 at a service built by \<^verbatim>\<open>NewService\<close> with the default resolver and a
  peer whose authentication info is not an identity: the call returns the wrapped
  \<^verbatim>\<open>AccessDenied\<close>, although the rest of the environment would let a dial succeed.
\<close>

theorem no_dial_without_authorization_witness:
  "NewService \<lparr>FIPS = True, Dialer_set = True, accessCheckerFn = None\<rparr>
     = Inr \<lparr>FIPS = True, Dialer_set = True, accessCheckerFn = Some defaultAccessCheckerFn\<rparr>
   \<and> \<not> authorized \<lparr>FIPS = True, Dialer_set = True, accessCheckerFn = Some defaultAccessCheckerFn\<rparr>
        \<lparr>env_peer = Some \<lparr>peer_Addr = ''10.0.0.1:3022'', peer_AuthInfo = OtherAuthInfo\<rparr>,
         first_recv = Inr \<lparr>DialTarget = Some \<lparr>HostPort = ''node:22'', Cluster = ''root''\<rparr>, req_Frame = NoFrame\<rparr>,
         new_agent_rw = None, dial_writes = [], dial_result = Inr ''conn'', new_ssh_rw = None,
         send_details = None, proxy_conn = None\<rparr>
   \<and> ProxySSH \<lparr>FIPS = True, Dialer_set = True, accessCheckerFn = Some defaultAccessCheckerFn\<rparr>
        (\<lambda>hp. Inr (''node'', ''22''))
        \<lparr>env_peer = Some \<lparr>peer_Addr = ''10.0.0.1:3022'', peer_AuthInfo = OtherAuthInfo\<rparr>,
         first_recv = Inr \<lparr>DialTarget = Some \<lparr>HostPort = ''node:22'', Cluster = ''root''\<rparr>, req_Frame = NoFrame\<rparr>,
         new_agent_rw = None, dial_writes = [], dial_result = Inr ''conn'', new_ssh_rw = None,
         send_details = None, proxy_conn = None\<rparr>
     = Ok ([EvAccessCheck OtherAuthInfo], Some (Wrap (AccessDenied ''client is not authenticated'') []))"
proof -
  let ?cfg = "\<lparr>FIPS = True, Dialer_set = True, accessCheckerFn = Some defaultAccessCheckerFn\<rparr>"
  let ?env = "\<lparr>env_peer = Some \<lparr>peer_Addr = ''10.0.0.1:3022'', peer_AuthInfo = OtherAuthInfo\<rparr>,
         first_recv = Inr \<lparr>DialTarget = Some \<lparr>HostPort = ''node:22'', Cluster = ''root''\<rparr>, req_Frame = NoFrame\<rparr>,
         new_agent_rw = None, dial_writes = [], dial_result = Inr ''conn'', new_ssh_rw = None,
         send_details = None, proxy_conn = None\<rparr>"
  have h2: "\<not> authorized ?cfg ?env"
    by (simp add: authorized_def defaultAccessCheckerFn_def)
  have n: "NewService \<lparr>FIPS = True, Dialer_set = True, accessCheckerFn = None\<rparr> = Inr ?cfg"
    by (simp add: NewService_def CheckAndSetDefaults_def)
  have d: "defaultAccessCheckerFn OtherAuthInfo = Inl (AccessDenied ''client is not authenticated'')"
    by (simp add: defaultAccessCheckerFn_def)
  obtain evs err where r: "ProxySSH ?cfg (\<lambda>hp. Inr (''node'', ''22'')) ?env = Ok (evs, Some err)"
    and e: "err = Wrap (AccessDenied ''client is not authenticated'') []"
    using no_dial_without_authorization [OF n h2, of "\<lambda>hp. Inr (''node'', ''22'')"] d by auto
  have "evs = [EvAccessCheck OtherAuthInfo]"
    using r by (simp add: ProxySSH_def d)
  with r e n h2 show ?thesis by simp
qed

subsection \<open>Validation of the dial target\<close>

text \<open>
  Claim C8. In a call whose peer is authorized and whose first \<^verbatim>\<open>stream.Recv()\<close> returns
  a message, a message without a dial target, or with a \<^verbatim>\<open>host_port\<close> that
  \<^verbatim>\<open>net.SplitHostPort\<close> rejects, makes \<^verbatim>\<open>ProxySSH\<close> return a \<^verbatim>\<open>BadParameter\<close> error:
  after the access check and that one receive, without calling the dialer, without
  starting the multiplexer, without sending anything and without receiving again.
\<close>

theorem bad_dial_target_rejected:
  assumes "authorized cfg env" and "first_recv env = Inr req"
    and "DialTarget req = None \<or> (\<exists>t. DialTarget req = Some t \<and> isl (split (HostPort t)))"
  shows "\<exists>p msg evs. env_peer env = Some p
    \<and> ProxySSH cfg split env = Ok (evs, Some (BadParameter msg))
    \<and> evs = [EvAccessCheck (peer_AuthInfo p), EvRecv]
    \<and> dial_calls evs = 0 \<and> sent_of evs = [] \<and> EvGoMux \<notin> set evs"
  using ProxySSH_bad_target [OF assms] by auto

text \<open>
  The theorem of C8 at a first message whose dial target is \<^verbatim>\<open>"node"\<close>, which has no
  port, and at a first message without a dial target.
\<close>

theorem bad_dial_target_rejected_witness:
  "ProxySSH \<lparr>FIPS = False, Dialer_set = True, accessCheckerFn = Some defaultAccessCheckerFn\<rparr>
        (\<lambda>hp. if hp = ''node'' then Inl (Remote ''missing port in address'') else Inr (''node'', ''22''))
        \<lparr>env_peer = Some \<lparr>peer_Addr = ''10.0.0.1:3022'', peer_AuthInfo = IdentityInfo (Checker ''alice'')\<rparr>,
         first_recv = Inr \<lparr>DialTarget = Some \<lparr>HostPort = ''node'', Cluster = ''root''\<rparr>, req_Frame = NoFrame\<rparr>,
         new_agent_rw = None, dial_writes = [], dial_result = Inr ''conn'', new_ssh_rw = None,
         send_details = None, proxy_conn = None\<rparr>
     = Ok ([EvAccessCheck (IdentityInfo (Checker ''alice'')), EvRecv],
           Some (BadParameter ''dial target contains an invalid hostport''))
   \<and> ProxySSH \<lparr>FIPS = False, Dialer_set = True, accessCheckerFn = Some defaultAccessCheckerFn\<rparr>
        (\<lambda>hp. if hp = ''node'' then Inl (Remote ''missing port in address'') else Inr (''node'', ''22''))
        \<lparr>env_peer = Some \<lparr>peer_Addr = ''10.0.0.1:3022'', peer_AuthInfo = IdentityInfo (Checker ''alice'')\<rparr>,
         first_recv = Inr \<lparr>DialTarget = None, req_Frame = Ssh [1]\<rparr>,
         new_agent_rw = None, dial_writes = [], dial_result = Inr ''conn'', new_ssh_rw = None,
         send_details = None, proxy_conn = None\<rparr>
     = Ok ([EvAccessCheck (IdentityInfo (Checker ''alice'')), EvRecv],
           Some (BadParameter ''first frame must contain a dial target''))"
proof -
  let ?cfg = "\<lparr>FIPS = False, Dialer_set = True, accessCheckerFn = Some defaultAccessCheckerFn\<rparr>"
  let ?split = "\<lambda>hp. if hp = ''node'' then Inl (Remote ''missing port in address'') else Inr (''node'', ''22'')"
  let ?peer = "\<lparr>peer_Addr = ''10.0.0.1:3022'', peer_AuthInfo = IdentityInfo (Checker ''alice'')\<rparr>"
  let ?req1 = "\<lparr>DialTarget = Some \<lparr>HostPort = ''node'', Cluster = ''root''\<rparr>, req_Frame = NoFrame\<rparr>"
  let ?req2 = "\<lparr>DialTarget = None, req_Frame = Ssh [1]\<rparr>"
  let ?env1 = "\<lparr>env_peer = Some ?peer, first_recv = Inr ?req1,
         new_agent_rw = None, dial_writes = [], dial_result = Inr ''conn'', new_ssh_rw = None,
         send_details = None, proxy_conn = None\<rparr>"
  let ?env2 = "\<lparr>env_peer = Some ?peer, first_recv = Inr ?req2,
         new_agent_rw = None, dial_writes = [], dial_result = Inr ''conn'', new_ssh_rw = None,
         send_details = None, proxy_conn = None\<rparr>"
  have a1: "authorized ?cfg ?env1" and a2: "authorized ?cfg ?env2"
    by (simp_all add: authorized_def defaultAccessCheckerFn_def)
  have f1: "first_recv ?env1 = Inr ?req1" and f2: "first_recv ?env2 = Inr ?req2"
    by simp_all
  have t1: "DialTarget ?req1 = None \<or> (\<exists>t. DialTarget ?req1 = Some t \<and> isl (?split (HostPort t)))"
    by simp
  have t2: "DialTarget ?req2 = None \<or> (\<exists>t. DialTarget ?req2 = Some t \<and> isl (?split (HostPort t)))"
    by simp
  obtain msg1 where r1: "ProxySSH ?cfg ?split ?env1
      = Ok ([EvAccessCheck (IdentityInfo (Checker ''alice'')), EvRecv], Some (BadParameter msg1))"
    using bad_dial_target_rejected [OF a1 f1 t1] by auto
  obtain msg2 where r2: "ProxySSH ?cfg ?split ?env2
      = Ok ([EvAccessCheck (IdentityInfo (Checker ''alice'')), EvRecv], Some (BadParameter msg2))"
    using bad_dial_target_rejected [OF a2 f2 t2] by auto
  have "msg1 = ''dial target contains an invalid hostport''"
    using r1 by (simp add: ProxySSH_def defaultAccessCheckerFn_def)
  moreover have "msg2 = ''first frame must contain a dial target''"
    using r2 by (simp add: ProxySSH_def defaultAccessCheckerFn_def)
  ultimately show ?thesis using r1 r2 by simp
qed

subsection \<open>Details only after a successful dial\<close>




section \<open>Properties of the cluster session\<close>

subsection \<open>Auxiliary facts\<close>

lemma ConnectionProblem_not_raw: "ConnectionProblem (Wrap err msg) \<noteq> err"
  by (induction err) simp_all

lemma Conn_Read_stream_error:
  assumes "\<not> is_EOF err"
  shows "Conn_Read client_clusterStream_Recv n (NewConn (NewReadWriter (Inl err # rest)) src a)
     = Ok ((0, [], Some (ConnectionProblem (Wrap err []))), NewConn (NewReadWriter rest) src a)"
  using assms
  by (simp add: Conn_Read_def ReadWriter_Read_def NewConn_def NewReadWriter_def
      client_clusterStream_Recv_def)



text \<open>
  On the reader/writer as the spec describes it, the same holds one level up: the read
  that meets the envelope without a frame returns a connection-problem error, and the
  next read returns the bytes of the envelope that follows.
\<close>

lemma Conn_Read_after_nil_frame:
  "Conn_Read client_clusterStream_Recv n
      (NewConn (NewReadWriter (Inr \<lparr>cresp_Frame = None\<rparr> # Inr \<lparr>cresp_Frame = Some (b # bs)\<rparr> # rest)) src a)
     = Ok ((0, [], Some (ConnectionProblem (BadParameter ''received invalid frame''))),
           NewConn (NewReadWriter (Inr \<lparr>cresp_Frame = Some (b # bs)\<rparr> # rest)) src a)
   \<and> Conn_Read client_clusterStream_Recv (length (b # bs))
      (NewConn (NewReadWriter (Inr \<lparr>cresp_Frame = Some (b # bs)\<rparr> # rest)) src a)
     = Ok ((length (b # bs), b # bs, None), NewConn (NewReadWriter rest) src a)"
  by (simp add: Conn_Read_def ReadWriter_Read_def NewConn_def NewReadWriter_def
      client_clusterStream_Recv_def)

lemma DialCluster_no_peer:
  assumes "cl_open_stream env = None" and "cl_send_cluster env = None"
    and "cl_new_rw env = None" and "cl_peer env = None"
  shows "DialCluster env inbox cluster src
     = (None, Some (BadParameter ''unable to retrieve peer information''))"
  using assms by (simp add: DialCluster_def)

subsection \<open>An envelope without a frame\<close>




subsection \<open>A cluster connection whose stream fails at once\<close>

text \<open>
  Claim C4, as far as the code goes. When the stream is opened, the first message is
  sent, \<^verbatim>\<open>NewReadWriter\<close> returns no error and the stream's context carries the peer,
  \<^verbatim>\<open>DialCluster\<close> returns a connection and a nil error, whatever the stream delivers. If
  the first thing the stream delivers is an error other than the end of the stream, the
  first \<^verbatim>\<open>Read\<close> of that connection returns no bytes and a connection-problem error,
  which is not the error the stream delivered.
\<close>

theorem DialCluster_lazy_failure:
  assumes "cl_open_stream env = None" and "cl_send_cluster env = None"
    and "cl_new_rw env = None" and "cl_peer env = Some a"
  shows "DialCluster env inbox cluster src = (Some (NewConn (NewReadWriter inbox) src a), None)
    \<and> (\<not> is_EOF err \<longrightarrow>
         DialCluster env (Inl err # rest) cluster src
           = (Some (NewConn (NewReadWriter (Inl err # rest)) src a), None)
         \<and> Conn_Read client_clusterStream_Recv n (NewConn (NewReadWriter (Inl err # rest)) src a)
           = Ok ((0, [], Some (ConnectionProblem (Wrap err []))), NewConn (NewReadWriter rest) src a)
         \<and> ConnectionProblem (Wrap err []) \<noteq> err)"
  using assms Conn_Read_stream_error [of err n rest src a] ConnectionProblem_not_raw [of err "[]"]
  by (simp add: DialCluster_def)

text \<open>
  The theorem of C4 at the session of the test ``stream terminated'': the service ends
  the stream with an error at once, and the caller reads into a buffer of 10 bytes.
\<close>

theorem DialCluster_lazy_failure_witness:
  "DialCluster \<lparr>cl_open_stream = None, cl_send_cluster = None, cl_new_rw = None, cl_peer = Some ''proxy:3080''\<rparr>
        [Inl (Remote ''not implemented'')] [] None
     = (Some (NewConn (NewReadWriter [Inl (Remote ''not implemented'')]) None ''proxy:3080''), None)
   \<and> Conn_Read client_clusterStream_Recv 10
        (NewConn (NewReadWriter [Inl (Remote ''not implemented'')]) None ''proxy:3080'')
     = Ok ((0, [], Some (ConnectionProblem (Wrap (Remote ''not implemented'') []))),
           NewConn (NewReadWriter []) None ''proxy:3080'')"
proof -
  let ?env = "\<lparr>cl_open_stream = None, cl_send_cluster = None, cl_new_rw = None, cl_peer = Some ''proxy:3080''\<rparr>"
  have h: "cl_open_stream ?env = None" "cl_send_cluster ?env = None" "cl_new_rw ?env = None"
    "cl_peer ?env = Some ''proxy:3080''"
    by simp_all
  have e: "\<not> is_EOF (Remote ''not implemented'')" by simp
  show ?thesis
    using DialCluster_lazy_failure [OF h, of "[Inl (Remote ''not implemented'')]" "[]" None
        "Remote ''not implemented''" "[]" 10] e
    by simp
qed

text \<open>
  C4 as stated fails: the first message is sent, but the stream's context carries no peer
  information, and \<^verbatim>\<open>DialCluster\<close> returns an error and no connection.
\<close>

theorem DialCluster_no_peer_counterexample:
  "DialCluster \<lparr>cl_open_stream = None, cl_send_cluster = None, cl_new_rw = None, cl_peer = None\<rparr>
        [Inl (Remote ''not implemented'')] [] None
     = (None, Some (BadParameter ''unable to retrieve peer information''))"
  by (simp add: DialCluster_def)

end
